theory Spec2Isabelle
  imports Main "HOL-Library.Word"
begin

section \<open>The operating-system interface used by hw-shell/shell.c\<close>

text \<open>
  The shell is a sequence of system calls, so the model is explicit state passing over a
  \<open>world\<close>: the file system, the open file descriptions (each with its own offset), the
  descriptor table of the interpreter process, the byte streams that are not files
  (terminals, pipes), the working directory, \<open>PATH\<close> and the executables.

  A descriptor names an open file description; \<open>dup2\<close> and \<open>fork\<close> share the description,
  and with it the offset. A child is a copy of the interpreter that works on the same
  descriptions, so what a child reads or writes moves the offsets the interpreter sees.

  Conventions:
  \<^item> return values that shell.c discards are not modelled (the calls return the new world);
  \<^item> the interpreter prints through the stdio stream \<open>stdout\<close>, whose buffer is part of the
    world; \<open>fgets\<close> is a read of one line from descriptor 0;
  \<^item> permissions, directories of files, links and \<open>fork\<close> failing are not modelled;
  \<^item> an external program is a filter: from its argument vector and the bytes it can read on
    its standard input it consumes a prefix, writes bytes to its standard output and ends;
  \<^item> undefined behaviour in the child (a null string, a buffer overrun) ends the child
    without output (\<open>Killed\<close>).
\<close>

type_synonym path = string
type_synonym bytes = string

datatype target = Stream nat | File path

record ofd =
  tgt :: target
  pos :: nat
  rd :: bool
  wr :: bool

datatype child_end = Exited int | Killed

record child_result =
  c_consumed :: nat
  c_output :: bytes
  c_end :: child_end

type_synonym program = "string list \<Rightarrow> bytes \<Rightarrow> child_result"

record world =
  files :: "path \<rightharpoonup> bytes"
  pending :: "nat \<Rightarrow> bytes"
  written :: "nat \<Rightarrow> bytes"
  tty :: "nat \<Rightarrow> bool"
  ofds :: "ofd list"
  fds :: "nat \<rightharpoonup> nat"
  cwd :: path
  dirs :: "path set"
  env_PATH :: "string option"
  execs :: "path \<rightharpoonup> program"
  out_buf :: bytes
  out_cap :: nat

definition STDIN_FILENO :: int where
  "STDIN_FILENO = 0"

definition STDOUT_FILENO :: int where
  "STDOUT_FILENO = 1"

definition OPEN_MAX :: nat where
  "OPEN_MAX = 1024"

definition NUL :: char where
  "NUL = CHR 0x00"

definition NL :: char where
  "NL = CHR 0x0A"

text \<open>A relative path is taken from the working directory; paths are not normalised.\<close>

definition resolve :: "world \<Rightarrow> path \<Rightarrow> path" where
  "resolve w p = (if p \<noteq> [] \<and> hd p = CHR ''/'' then p else cwd w @ ''/'' @ p)"

definition fd_ofd :: "world \<Rightarrow> int \<Rightarrow> nat option" where
  "fd_ofd w fd = (if fd < 0 then None else fds w (nat fd))"

definition get_ofd :: "world \<Rightarrow> nat \<Rightarrow> ofd option" where
  "get_ofd w i = (if i < length (ofds w) then Some (ofds w ! i) else None)"

text \<open>\<open>open\<close> returns the lowest descriptor that is not in use, or fails with \<open>EMFILE\<close>.\<close>

function lowest_free :: "(nat \<rightharpoonup> nat) \<Rightarrow> nat \<Rightarrow> nat option" where
  "lowest_free t n =
     (if OPEN_MAX \<le> n then None
      else if t n = None then Some n
      else lowest_free t (Suc n))"
  by pat_completeness auto
termination
  by (relation "measure (\<lambda>(t, n). OPEN_MAX - n)") auto

declare lowest_free.simps [simp del]

datatype access = O_RDONLY | O_WRONLY | O_RDWR

definition may_read :: "access \<Rightarrow> bool" where
  "may_read a = (a \<noteq> O_WRONLY)"

definition may_write :: "access \<Rightarrow> bool" where
  "may_write a = (a \<noteq> O_RDONLY)"

text \<open>\<open>open(path, [O_CREAT |] access)\<close>: the new description starts at offset 0 and the
  file keeps its contents (none of the calls in shell.c passes \<open>O_TRUNC\<close> or \<open>O_APPEND\<close>).
  The result is the world and the descriptor, \<open>-1\<close> on failure.\<close>

definition sys_open :: "world \<Rightarrow> path option \<Rightarrow> bool \<Rightarrow> access \<Rightarrow> world \<times> int" where
  "sys_open w name o_creat a =
     (case name of
        None \<Rightarrow> (w, -1)
      | Some p \<Rightarrow>
          let q = resolve w p in
          if files w q = None \<and> \<not> o_creat then (w, -1)
          else (case lowest_free (fds w) 0 of
                  None \<Rightarrow> (w, -1)
                | Some fd \<Rightarrow>
                    (w\<lparr>files := (if files w q = None then (files w)(q \<mapsto> []) else files w),
                       ofds := ofds w @ [\<lparr>tgt = File q, pos = 0, rd = may_read a, wr = may_write a\<rparr>],
                       fds := (fds w)(fd \<mapsto> length (ofds w))\<rparr>,
                     int fd)))"

definition sys_close :: "world \<Rightarrow> int \<Rightarrow> world" where
  "sys_close w fd =
     (case fd_ofd w fd of
        None \<Rightarrow> w
      | Some i \<Rightarrow> w\<lparr>fds := (fds w)(nat fd := None)\<rparr>)"

definition sys_dup2 :: "world \<Rightarrow> int \<Rightarrow> int \<Rightarrow> world" where
  "sys_dup2 w oldfd newfd =
     (case fd_ofd w oldfd of
        None \<Rightarrow> w
      | Some i \<Rightarrow> if newfd < 0 then w else w\<lparr>fds := (fds w)(nat newfd \<mapsto> i)\<rparr>)"

text \<open>\<open>ftruncate\<close> sets the length of the file and leaves the offset of the description
  where it was.\<close>

definition ofd_truncate :: "world \<Rightarrow> nat \<Rightarrow> nat \<Rightarrow> world" where
  "ofd_truncate w i len =
     (case get_ofd w i of
        None \<Rightarrow> w
      | Some d \<Rightarrow>
          (case tgt d of
             Stream k \<Rightarrow> w
           | File q \<Rightarrow>
               (case files w q of
                  None \<Rightarrow> w
                | Some c \<Rightarrow>
                    if wr d
                    then w\<lparr>files := (files w)(q \<mapsto> take len c @ replicate (len - length c) NUL)\<rparr>
                    else w)))"

definition sys_ftruncate :: "world \<Rightarrow> int \<Rightarrow> nat \<Rightarrow> world" where
  "sys_ftruncate w fd len =
     (case fd_ofd w fd of None \<Rightarrow> w | Some i \<Rightarrow> ofd_truncate w i len)"

text \<open>\<open>lseek(fd, off, SEEK_SET)\<close>; a stream cannot seek.\<close>

definition ofd_seek :: "world \<Rightarrow> nat \<Rightarrow> nat \<Rightarrow> world" where
  "ofd_seek w i off =
     (case get_ofd w i of
        None \<Rightarrow> w
      | Some d \<Rightarrow>
          (case tgt d of
             Stream k \<Rightarrow> w
           | File q \<Rightarrow> w\<lparr>ofds := (ofds w)[i := d\<lparr>pos := off\<rparr>]\<rparr>))"

definition sys_lseek :: "world \<Rightarrow> int \<Rightarrow> nat \<Rightarrow> world" where
  "sys_lseek w fd off =
     (case fd_ofd w fd of None \<Rightarrow> w | Some i \<Rightarrow> ofd_seek w i off)"

text \<open>The bytes a description can deliver now: the rest of the file from its offset, or
  what is pending on the stream.\<close>

definition ofd_peek :: "world \<Rightarrow> nat \<Rightarrow> bytes" where
  "ofd_peek w i =
     (case get_ofd w i of
        None \<Rightarrow> []
      | Some d \<Rightarrow>
          if rd d
          then (case tgt d of
                  Stream k \<Rightarrow> pending w k
                | File q \<Rightarrow> (case files w q of None \<Rightarrow> [] | Some c \<Rightarrow> drop (pos d) c))
          else [])"

text \<open>\<open>read\<close> of at most \<open>n\<close> bytes: the bytes, or \<open>None\<close> for the result \<open>-1\<close>.\<close>

definition ofd_read :: "world \<Rightarrow> nat \<Rightarrow> nat \<Rightarrow> world \<times> bytes option" where
  "ofd_read w i n =
     (case get_ofd w i of
        None \<Rightarrow> (w, None)
      | Some d \<Rightarrow>
          if rd d
          then (let buf = take n (ofd_peek w i) in
                case tgt d of
                  Stream k \<Rightarrow> (w\<lparr>pending := (pending w)(k := drop n (pending w k))\<rparr>, Some buf)
                | File q \<Rightarrow> (w\<lparr>ofds := (ofds w)[i := d\<lparr>pos := pos d + length buf\<rparr>]\<rparr>, Some buf))
          else (w, None))"

definition sys_read :: "world \<Rightarrow> int \<Rightarrow> nat \<Rightarrow> world \<times> bytes option" where
  "sys_read w fd n =
     (case fd_ofd w fd of None \<Rightarrow> (w, None) | Some i \<Rightarrow> ofd_read w i n)"

text \<open>Writing into a file at an offset past its end fills the gap with zero bytes; a
  write of no bytes changes nothing.\<close>

definition write_at :: "bytes \<Rightarrow> nat \<Rightarrow> bytes \<Rightarrow> bytes" where
  "write_at c p buf = take p c @ replicate (p - length c) NUL @ buf @ drop (p + length buf) c"

definition ofd_write :: "world \<Rightarrow> nat \<Rightarrow> bytes \<Rightarrow> world" where
  "ofd_write w i buf =
     (case get_ofd w i of
        None \<Rightarrow> w
      | Some d \<Rightarrow>
          if wr d \<and> buf \<noteq> []
          then (case tgt d of
                  Stream k \<Rightarrow> w\<lparr>written := (written w)(k := written w k @ buf)\<rparr>
                | File q \<Rightarrow>
                    (case files w q of
                       None \<Rightarrow> w
                     | Some c \<Rightarrow>
                         w\<lparr>files := (files w)(q \<mapsto> write_at c (pos d) buf),
                           ofds := (ofds w)[i := d\<lparr>pos := pos d + length buf\<rparr>]\<rparr>))
          else w)"

definition sys_write :: "world \<Rightarrow> int \<Rightarrow> bytes \<Rightarrow> world" where
  "sys_write w fd buf =
     (case fd_ofd w fd of None \<Rightarrow> w | Some i \<Rightarrow> ofd_write w i buf)"

definition isatty :: "world \<Rightarrow> int \<Rightarrow> bool" where
  "isatty w fd =
     (case fd_ofd w fd of
        None \<Rightarrow> False
      | Some i \<Rightarrow>
          (case get_ofd w i of
             None \<Rightarrow> False
           | Some d \<Rightarrow> (case tgt d of Stream k \<Rightarrow> tty w k | File q \<Rightarrow> False)))"

text \<open>\<open>chdir(NULL)\<close> and \<open>chdir\<close> to something that is not a directory fail.\<close>

definition sys_chdir :: "world \<Rightarrow> path option \<Rightarrow> world" where
  "sys_chdir w name =
     (case name of
        None \<Rightarrow> w
      | Some p \<Rightarrow> if resolve w p \<in> dirs w then w\<lparr>cwd := resolve w p\<rparr> else w)"

text \<open>The stdio stream \<open>stdout\<close> of the interpreter: \<open>out_buf\<close> holds the bytes printed and
  not yet written to descriptor 1, \<open>out_cap\<close> is the size of the buffer (0 for a stream
  without one). shell.c never calls \<open>fflush\<close>, so the buffer is written only by the
  library:
  \<^item> when descriptor 1 is a terminal the stream is line buffered. Every line is written at
    its newline, and the rest of a line (the prompt) when the program next reads a line
    from a terminal, which shell.c does right after printing a prompt; the model writes
    both at the \<open>printf\<close>;
  \<^item> otherwise the stream is fully buffered: bytes stay in the buffer while they fit, and
    when they do not the library writes whole blocks and keeps the rest;
  \<^item> \<open>exit\<close>, and the return from \<open>main\<close>, write what the buffer holds.\<close>

definition fflush_stdout :: "world \<Rightarrow> world" where
  "fflush_stdout w = (sys_write w STDOUT_FILENO (out_buf w))\<lparr>out_buf := []\<rparr>"

definition printf :: "world \<Rightarrow> bytes \<Rightarrow> world" where
  "printf w s =
     (let b = out_buf w @ s; n = length b in
      if isatty w STDOUT_FILENO \<or> out_cap w = 0 then fflush_stdout (w\<lparr>out_buf := b\<rparr>)
      else if n \<le> out_cap w then w\<lparr>out_buf := b\<rparr>
      else (sys_write w STDOUT_FILENO (take (n - n mod out_cap w) b))
             \<lparr>out_buf := drop (n - n mod out_cap w) b\<rparr>)"

section \<open>The tokenizer interface\<close>

text \<open>tokenizer.c is not among the sources; shell.c uses it through tokenizer.h. A token
  sequence is the list of its tokens, in order.\<close>

definition tokens_get_length :: "string list \<Rightarrow> nat" where
  "tokens_get_length toks = length toks"

text \<open>Modelled from the spec: \<open>tokens_get_token\<close> (tokenizer.c is missing). The token at
  index \<open>n\<close>, absent (a null pointer) when \<open>n\<close> is not an index of the sequence: the spec
  speaks of the token at index 1 being "absent", and \<open>lookup\<close> tests its argument for null.\<close>

definition tokens_get_token :: "string list \<Rightarrow> nat \<Rightarrow> string option" where
  "tokens_get_token toks n = (if n < length toks then Some (toks ! n) else None)"

text \<open>Modelled from the spec: \<open>is_contains_word\<close> (tokenizer.c is missing). "The line
  contains at least one \<open>|\<close> token."\<close>

definition is_contains_word :: "string list \<Rightarrow> string \<Rightarrow> bool" where
  "is_contains_word toks word = (word \<in> set toks)"

text \<open>Modelled from the spec: \<open>tokenize\<close> (tokenizer.c is missing). "Token: a single
  whitespace-delimited unit produced from a raw input line." \<open>main\<close> takes the tokenizer as
  a parameter; this one serves the examples.\<close>

definition is_space :: "char \<Rightarrow> bool" where
  "is_space c = (c = CHR '' '' \<or> c = NL \<or> c = CHR 0x09 \<or> c = CHR 0x0D)"

fun split_words :: "string \<Rightarrow> string \<Rightarrow> string list" where
  "split_words acc [] = (if acc = [] then [] else [acc])"
| "split_words acc (c # cs) =
     (if is_space c
      then (if acc = [] then split_words [] cs else acc # split_words [] cs)
      else split_words (acc @ [c]) cs)"

definition tokenize :: "string \<Rightarrow> string list" where
  "tokenize line = split_words [] line"

section \<open>shell.c\<close>

definition INPUT_FILE :: path where
  "INPUT_FILE = ''./.input''"

definition OUTPUT_FILE :: path where
  "OUTPUT_FILE = ''./.output''"

definition BUF_SIZE :: nat where
  "BUF_SIZE = 4096"

subsection \<open>Built-in commands\<close>

datatype builtin = Cmd_help | Cmd_exit | Cmd_cd | Cmd_pwd

text \<open>A handler returns its \<open>int\<close>, or ends the process through \<open>exit\<close>: \<open>Exits c w\<close> is the
  call \<open>exit(c)\<close> in the world \<open>w\<close>. What \<open>exit\<close> then does to the world is in \<open>main\<close>.\<close>

datatype handled = Returns int world | Exits int world

definition cmd_table :: "(builtin \<times> string \<times> string) list" where
  "cmd_table =
     [(Cmd_help, ''?'', ''show this help menu''),
      (Cmd_exit, ''exit'', ''exit the command shell''),
      (Cmd_cd, ''cd'', ''Changes the current working directory to that specified directory''),
      (Cmd_pwd, ''pwd'', ''Prints the current working directory to standard output'')]"

definition cmd_help :: "world \<Rightarrow> string list \<Rightarrow> handled" where
  "cmd_help w toks =
     Returns 1 (fold (\<lambda>(f, cmd, doc) w'. printf w' (cmd @ '' - '' @ doc @ [NL])) cmd_table w)"

definition cmd_exit :: "world \<Rightarrow> string list \<Rightarrow> handled" where
  "cmd_exit w toks = Exits 0 w"

definition cmd_cd :: "world \<Rightarrow> string list \<Rightarrow> handled" where
  "cmd_cd w toks = (let path = tokens_get_token toks 1 in Returns 1 (sys_chdir w path))"

definition cmd_pwd :: "world \<Rightarrow> string list \<Rightarrow> handled" where
  "cmd_pwd w toks = Returns 1 (printf w (cwd w @ [NL]))"

definition run_builtin :: "builtin \<Rightarrow> world \<Rightarrow> string list \<Rightarrow> handled" where
  "run_builtin f w toks =
     (case f of
        Cmd_help \<Rightarrow> cmd_help w toks
      | Cmd_exit \<Rightarrow> cmd_exit w toks
      | Cmd_cd \<Rightarrow> cmd_cd w toks
      | Cmd_pwd \<Rightarrow> cmd_pwd w toks)"

fun lookup_from :: "nat \<Rightarrow> (builtin \<times> string \<times> string) list \<Rightarrow> string option \<Rightarrow> int" where
  "lookup_from i [] cmd = -1"
| "lookup_from i ((f, name, doc) # rest) cmd =
     (if cmd \<noteq> None \<and> cmd = Some name then int i else lookup_from (Suc i) rest cmd)"

definition lookup :: "string option \<Rightarrow> int" where
  "lookup cmd = lookup_from 0 cmd_table cmd"

subsection \<open>Launching a program\<close>


text \<open>One call of \<open>strtok\<close> with the delimiter \<open>:\<close>: skip delimiters, and unless the string
  ends there return the token up to the next delimiter and the rest after it.\<close>

definition strtok :: "string \<Rightarrow> (string \<times> string) option" where
  "strtok s =
     (let s1 = dropWhile (\<lambda>c. c = CHR '':'') s in
      if s1 = [] then None
      else Some (takeWhile (\<lambda>c. c \<noteq> CHR '':'') s1, drop 1 (dropWhile (\<lambda>c. c \<noteq> CHR '':'') s1)))"

lemma strtok_shorter: "strtok s = Some (t, r) \<Longrightarrow> length r < length s"
proof -
  assume a: "strtok s = Some (t, r)"
  define s1 where "s1 = dropWhile (\<lambda>c. c = CHR '':'') s"
  from a have ne: "s1 \<noteq> []" and r: "r = drop 1 (dropWhile (\<lambda>c. c \<noteq> CHR '':'') s1)"
    by (auto simp: strtok_def s1_def Let_def split: if_splits)
  from ne have "hd s1 \<noteq> CHR '':''"
    unfolding s1_def by (metis (mono_tags, lifting) hd_dropWhile)
  with ne have "dropWhile (\<lambda>c. c \<noteq> CHR '':'') s1 = dropWhile (\<lambda>c. c \<noteq> CHR '':'') (tl s1)"
    by (cases s1) auto
  moreover have "length (dropWhile (\<lambda>c. c \<noteq> CHR '':'') (tl s1)) \<le> length (tl s1)"
    by (rule length_dropWhile_le)
  ultimately have "length (dropWhile (\<lambda>c. c \<noteq> CHR '':'') s1) \<le> length (tl s1)"
    by simp
  moreover have "length (tl s1) < length s1" using ne by (cases s1) auto
  moreover have "length s1 \<le> length s" unfolding s1_def by (rule length_dropWhile_le)
  ultimately show ?thesis using r by simp
qed

datatype launch = Run program | Not_found | Crash

definition execv :: "world \<Rightarrow> path option \<Rightarrow> program option" where
  "execv w name = (case name of None \<Rightarrow> None | Some p \<Rightarrow> execs w (resolve w p))"

text \<open>The search loop of \<open>execute_program\<close>: \<open>absolute_path\<close> has 128 bytes, and
  \<open>strcpy\<close> and \<open>strcat\<close> do not check it; \<open>strcat\<close> of a null name is undefined too.\<close>

function path_search :: "world \<Rightarrow> string \<Rightarrow> string option \<Rightarrow> launch" where
  "path_search w pathstr relative_path =
     (case strtok pathstr of
        None \<Rightarrow> Not_found
      | Some (prefix_path, rest) \<Rightarrow>
          (case relative_path of
             None \<Rightarrow> Crash
           | Some name \<Rightarrow>
               if 128 < length prefix_path + 1 + length name + 1 then Crash
               else (case execv w (Some (prefix_path @ ''/'' @ name)) of
                       Some prog \<Rightarrow> Run prog
                     | None \<Rightarrow> path_search w rest relative_path)))"
  by pat_completeness auto
termination
  by (relation "measure (\<lambda>(w, pathstr, relative_path). length pathstr)")
     (auto dest: strtok_shorter)

declare path_search.simps [simp del]

text \<open>\<open>getenv("PATH")\<close> is null when the variable is not set, and \<open>strtok\<close> of a null
  string with no earlier call is undefined.\<close>

definition resolve_program :: "world \<Rightarrow> string option \<Rightarrow> launch" where
  "resolve_program w relative_path =
     (case execv w relative_path of
        Some prog \<Rightarrow> Run prog
      | None \<Rightarrow>
          (case env_PATH w of
             None \<Rightarrow> Crash
           | Some pathstr \<Rightarrow> path_search w pathstr relative_path))"

definition crashed :: child_result where
  "crashed = \<lparr>c_consumed = 0, c_output = [], c_end = Killed\<rparr>"

text \<open>\<open>size_t\<close> subtraction wraps around at 64 bits.\<close>

definition size_sub :: "nat \<Rightarrow> nat \<Rightarrow> nat" where
  "size_sub a b = unat ((word_of_nat a :: 64 word) - word_of_nat b)"

text \<open>The argument vector ends at its first null entry.\<close>

definition child_argv :: "string list \<Rightarrow> nat \<Rightarrow> nat \<Rightarrow> string list" where
  "child_argv toks offset argc =
     map the (takeWhile (\<lambda>t. t \<noteq> None) (map (\<lambda>i. tokens_get_token toks (offset + i)) [0..<argc]))"

text \<open>The child of \<open>execute_program\<close> after its two \<open>dup2\<close> calls, given the bytes it can
  read on its standard input. The array \<open>argv[argc + 1]\<close> has length zero when \<open>argc + 1\<close>
  wraps around.

  The child is a copy of the interpreter, so it starts with a copy of the buffer of
  \<open>stdout\<close>. A program that \<open>execv\<close> starts replaces the copy. The child that finds no
  program prints its line into the copy and calls \<open>exit\<close>, which writes the buffer: first
  what the interpreter had printed and not yet written, then the line.\<close>

definition child :: "world \<Rightarrow> string list \<Rightarrow> nat \<Rightarrow> nat \<Rightarrow> bytes \<Rightarrow> child_result" where
  "child w toks offset argc input =
     (if 2 ^ 64 \<le> argc + 1 then crashed
      else
        let relative_path = tokens_get_token toks offset;
            argv = child_argv toks offset argc
        in case resolve_program w relative_path of
             Run prog \<Rightarrow> prog argv input
           | Crash \<Rightarrow> crashed
           | Not_found \<Rightarrow>
               (case relative_path of
                  None \<Rightarrow> crashed
                | Some name \<Rightarrow>
                    \<lparr>c_consumed = 0,
                     c_output = out_buf w @ name @ '': command not found'' @ [NL],
                     c_end = Exited 0\<rparr>))"

text \<open>\<open>execute_program\<close>: the child's standard input is the description of \<open>indes\<close>, or
  the interpreter's own when that \<open>dup2\<close> fails; likewise its standard output. The parent
  waits, so the world it sees next is the one the child left; its own buffer of \<open>stdout\<close>
  is as it was at the \<open>fork\<close>.\<close>

definition execute_program ::
  "world \<Rightarrow> string list \<Rightarrow> nat \<Rightarrow> nat \<Rightarrow> int \<Rightarrow> int \<Rightarrow> world" where
  "execute_program w toks offset argc indes outdes =
     (let child_in = (case fd_ofd w indes of Some i \<Rightarrow> Some i | None \<Rightarrow> fd_ofd w STDIN_FILENO);
          child_out = (case fd_ofd w outdes of Some i \<Rightarrow> Some i | None \<Rightarrow> fd_ofd w STDOUT_FILENO);
          input = (case child_in of None \<Rightarrow> [] | Some i \<Rightarrow> ofd_peek w i);
          r = child w toks offset argc input;
          w1 = (case child_in of None \<Rightarrow> w | Some i \<Rightarrow> fst (ofd_read w i (c_consumed r)));
          w2 = (case child_out of None \<Rightarrow> w1 | Some i \<Rightarrow> ofd_write w1 i (c_output r))
      in w2)"

subsection \<open>Pipelines\<close>

text \<open>\<open>while ((len = read(src, buf, BUF_SIZE)) > 0) write(dst, buf, len);\<close> The loop runs
  for ever when the writes keep feeding the reads, so not returning is the value \<open>None\<close>.\<close>

partial_function (option) copy_loop :: "world \<Rightarrow> int \<Rightarrow> int \<Rightarrow> world option" where
  "copy_loop w src dst =
     (case sys_read w src BUF_SIZE of
        (w1, None) \<Rightarrow> Some w1
      | (w1, Some buf) \<Rightarrow>
          if buf = [] then Some w1 else copy_loop (sys_write w1 dst buf) src dst)"

declare copy_loop.simps [code]

text \<open>\<open>while (fast < tokens_len && strcmp(tokens_get_token(tokens, fast), "|")) fast++;\<close>\<close>

function scan_stage :: "string list \<Rightarrow> nat \<Rightarrow> nat" where
  "scan_stage toks fast =
     (if fast < tokens_get_length toks \<and> tokens_get_token toks fast \<noteq> Some ''|''
      then scan_stage toks (Suc fast)
      else fast)"
  by pat_completeness auto
termination
  by (relation "measure (\<lambda>(toks, fast). length toks - fast)") (auto simp: tokens_get_length_def)

declare scan_stage.simps [simp del]

text \<open>The number of processes: one more than the number of \<open>|\<close> tokens.\<close>

definition process_num :: "string list \<Rightarrow> nat" where
  "process_num toks = fold (\<lambda>t n. if t = ''|'' then Suc n else n) toks 1"

text \<open>The loop over the stages, by the number of stages still to run. \<open>slow \<le> fast\<close>
  holds at the call of \<open>execute_program\<close>, so \<open>fast - slow\<close> does not wrap.\<close>

fun stage_loop ::
  "string list \<Rightarrow> int \<Rightarrow> int \<Rightarrow> nat \<Rightarrow> nat \<Rightarrow> nat \<Rightarrow> world \<Rightarrow> world option" where
  "stage_loop toks input_filedes output_filedes 0 slow fast w = Some w"
| "stage_loop toks input_filedes output_filedes (Suc k) slow fast w =
     (let fast1 = scan_stage toks fast;
          w1 = sys_lseek w input_filedes 0;
          w2 = execute_program w1 toks slow (fast1 - slow) input_filedes output_filedes;
          w3 = sys_ftruncate w2 input_filedes 0;
          w4 = sys_lseek w3 output_filedes 0
      in case copy_loop w4 output_filedes input_filedes of
           None \<Rightarrow> None
         | Some w5 \<Rightarrow>
             stage_loop toks input_filedes output_filedes k (Suc fast1) (Suc fast1)
               (sys_ftruncate w5 output_filedes 0))"

text \<open>The branch of \<open>main\<close> for a line with a \<open>|\<close> token (lines 186 to 231).\<close>

definition run_pipeline :: "world \<Rightarrow> string list \<Rightarrow> world option" where
  "run_pipeline w toks =
     (let (w1, input_filedes) = sys_open w (Some INPUT_FILE) True O_RDWR;
          (w2, output_filedes) = sys_open w1 (Some OUTPUT_FILE) True O_RDWR;
          w3 = sys_ftruncate w2 input_filedes 0;
          w4 = sys_ftruncate w3 output_filedes 0
      in case stage_loop toks input_filedes output_filedes (process_num toks) 0 0 w4 of
           None \<Rightarrow> None
         | Some w5 \<Rightarrow>
             (case copy_loop (sys_lseek w5 input_filedes 0) input_filedes STDIN_FILENO of
                None \<Rightarrow> None
              | Some w6 \<Rightarrow> Some (sys_close (sys_close w6 input_filedes) output_filedes)))"

subsection \<open>One line\<close>

datatype step = Continue world | Exit int world

text \<open>The body of the loop of \<open>main\<close> from the lookup to the last branch (lines 175 to
  249), on the tokens of the line.\<close>

definition process_line :: "world \<Rightarrow> string list \<Rightarrow> step option" where
  "process_line w toks =
     (let fundex = lookup (tokens_get_token toks 0) in
      if 0 \<le> fundex
      then (case run_builtin (fst (cmd_table ! nat fundex)) w toks of
              Returns r w' \<Rightarrow> Some (Continue w')
            | Exits c w' \<Rightarrow> Some (Exit c w'))
      else
        let command_argc = tokens_get_length toks in
        if is_contains_word toks ''|''
        then map_option Continue (run_pipeline w toks)
        else if is_contains_word toks ''>''
        then
          (let filename = tokens_get_token toks (size_sub command_argc 1);
               (w1, filedes) = sys_open w filename True O_WRONLY;
               w2 = execute_program w1 toks 0 (size_sub command_argc 2) STDIN_FILENO filedes
           in Some (Continue (sys_close w2 filedes)))
        else if is_contains_word toks ''<''
        then
          (let filename = tokens_get_token toks (size_sub command_argc 1);
               (w1, filedes) = sys_open w filename False O_RDONLY;
               w2 = sys_dup2 w1 filedes STDIN_FILENO;
               w3 = execute_program w2 toks 0 (size_sub command_argc 2) filedes STDOUT_FILENO
           in Some (Continue (sys_close w3 filedes)))
        else Some (Continue (execute_program w toks 0 command_argc STDIN_FILENO STDOUT_FILENO)))"

subsection \<open>The read loop\<close>

text \<open>\<open>fgets(line, n, stdin)\<close>: at most \<open>n - 1\<close> bytes, up to and with the first
  newline; null at the end of the input or when descriptor 0 cannot be read. The library
  reads from descriptor 0 what it delivers at once, which is one line on a terminal; the
  model takes the line and leaves what follows it on the descriptor.\<close>

definition take_line :: "bytes \<Rightarrow> bytes" where
  "take_line s = takeWhile (\<lambda>c. c \<noteq> NL) s @ take 1 (dropWhile (\<lambda>c. c \<noteq> NL) s)"

definition fgets :: "world \<Rightarrow> nat \<Rightarrow> (bytes \<times> world) option" where
  "fgets w n =
     (case fd_ofd w STDIN_FILENO of
        None \<Rightarrow> None
      | Some i \<Rightarrow>
          let line = take_line (take (n - 1) (ofd_peek w i)) in
          if line = [] then None else Some (line, fst (ofd_read w i (length line))))"

text \<open>\<open>%d\<close> of an \<open>int\<close>. (\<open>line_num\<close> is a C \<open>int\<close>; it is modelled unbounded, its
  overflow after \<open>INT_MAX\<close> prompts being undefined.)\<close>

function dec :: "nat \<Rightarrow> string" where
  "dec n = (if n < 10 then [''0123456789'' ! n] else dec (n div 10) @ [''0123456789'' ! (n mod 10)])"
  by pat_completeness auto
termination
  by (relation "measure (\<lambda>n. n)") auto

declare dec.simps [simp del]

definition show_int :: "int \<Rightarrow> string" where
  "show_int i = (if i < 0 then ''-'' @ dec (nat (- i)) else dec (nat i))"

definition prompt :: "world \<Rightarrow> int \<Rightarrow> world" where
  "prompt w line_num = printf w (show_int line_num @ '': '')"

text \<open>The loop of \<open>main\<close>, with fuel for the number of \<open>fgets\<close> calls: the input of the
  shell can grow while it runs (a line can redirect descriptor 0 to a file that a later
  line rewrites), so the loop need not end. The result is the exit status and the world
  in which the process ends, by \<open>exit\<close> or by the return from \<open>main\<close>.\<close>

fun main_loop ::
  "(string \<Rightarrow> string list) \<Rightarrow> nat \<Rightarrow> bool \<Rightarrow> int \<Rightarrow> world \<Rightarrow> (int \<times> world) option" where
  "main_loop tok 0 shell_is_interactive line_num w = None"
| "main_loop tok (Suc fuel) shell_is_interactive line_num w =
     (case fgets w BUF_SIZE of
        None \<Rightarrow> Some (0, w)
      | Some (line, w1) \<Rightarrow>
          (case process_line w1 (tok line) of
             None \<Rightarrow> None
           | Some (Exit c w2) \<Rightarrow> Some (c, w2)
           | Some (Continue w2) \<Rightarrow>
               if shell_is_interactive
               then main_loop tok fuel shell_is_interactive (line_num + 1)
                      (prompt w2 (line_num + 1))
               else main_loop tok fuel shell_is_interactive line_num w2))"


section \<open>Notions used in the properties\<close>

text \<open>The directory prefixes of a \<open>PATH\<close> string: the tokens that the successive \<open>strtok\<close>
  calls of the search loop return, in order.\<close>

function path_prefixes :: "string \<Rightarrow> string list" where
  "path_prefixes s = (case strtok s of None \<Rightarrow> [] | Some (t, r) \<Rightarrow> t # path_prefixes r)"
  by pat_completeness auto
termination
  by (relation "measure length") (auto dest: strtok_shorter)

declare path_prefixes.simps [simp del]

text \<open>Splitting a string on \<open>:\<close> into its fields, empty ones included.\<close>

fun split_colon :: "string \<Rightarrow> string list" where
  "split_colon [] = [[]]"
| "split_colon (c # cs) =
     (if c = CHR '':'' then [] # split_colon cs
      else (case split_colon cs of [] \<Rightarrow> [[c]] | f # fs \<Rightarrow> (c # f) # fs))"

text \<open>Descriptor 0 is open on a stream (a terminal or a pipe), not on a file.\<close>

definition stdin_stream :: "world \<Rightarrow> bool" where
  "stdin_stream w =
     (case fds w 0 of
        None \<Rightarrow> False
      | Some i0 \<Rightarrow> i0 < length (ofds w) \<and> (case tgt (ofds w ! i0) of Stream k \<Rightarrow> True | File q \<Rightarrow> False))"

text \<open>The state of the interpreter inside the pipeline branch: the world \<open>w\<close> in which the
  branch was entered, plus the two scratch files with contents \<open>a\<close> (input buffer) and \<open>b\<close>
  (output buffer) and their two open descriptions at the offsets \<open>pa\<close> and \<open>pb\<close>, bound to
  the descriptors \<open>fi\<close> and \<open>fo\<close>.\<close>

definition relay :: "world \<Rightarrow> nat \<Rightarrow> nat \<Rightarrow> bytes \<Rightarrow> bytes \<Rightarrow> nat \<Rightarrow> nat \<Rightarrow> world" where
  "relay w fi fo a b pa pb =
     w\<lparr>files := (files w)(resolve w INPUT_FILE \<mapsto> a, resolve w OUTPUT_FILE \<mapsto> b),
       ofds := ofds w @ [\<lparr>tgt = File (resolve w INPUT_FILE), pos = pa, rd = True, wr = True\<rparr>,
                         \<lparr>tgt = File (resolve w OUTPUT_FILE), pos = pb, rd = True, wr = True\<rparr>],
       fds := (fds w)(fi \<mapsto> length (ofds w), fo \<mapsto> Suc (length (ofds w)))\<rparr>"

text \<open>What the loop over the stages does to the input buffer and the two offsets (the
  output buffer is empty before and after each stage). The stage reads the whole input
  buffer from offset 0 and writes at the offset the output description was left at; the
  copy step then writes the output buffer into the emptied input buffer at the offset the
  stage stopped reading at.\<close>

fun relay_stages ::
  "world \<Rightarrow> string list \<Rightarrow> nat \<Rightarrow> nat \<Rightarrow> nat \<Rightarrow> bytes \<times> nat \<times> nat \<Rightarrow> bytes \<times> nat \<times> nat" where
  "relay_stages w toks 0 slow fast s = s"
| "relay_stages w toks (Suc k) slow fast (a, pa, pb) =
     (let fast1 = scan_stage toks fast;
          r = child w toks slow (fast1 - slow) a;
          pa1 = length (take (c_consumed r) a);
          b = (if c_output r = [] then [] else write_at [] pb (c_output r));
          a1 = (if b = [] then [] else write_at [] pa1 b)
      in relay_stages w toks k (Suc fast1) (Suc fast1) (a1, pa1 + length b, length b))"

text \<open>The contents of the input buffer after the last stage.\<close>

definition relayed :: "world \<Rightarrow> string list \<Rightarrow> bytes" where
  "relayed w toks = fst (relay_stages w toks (process_num toks) 0 0 ([], 0, 0))"


section \<open>Example programs and worlds\<close>

text \<open>Three filters: \<open>echo\<close> reads nothing and writes its arguments; \<open>cat\<close> copies its
  input; \<open>tr\<close> reads all of its input and, called as \<open>tr a-z A-Z\<close>, writes it in upper
  case (with any other arguments it fails without output).\<close>

fun join_args :: "string list \<Rightarrow> string" where
  "join_args [] = []"
| "join_args [a] = a"
| "join_args (a # b # r) = a @ '' '' @ join_args (b # r)"

definition echo_prog :: program where
  "echo_prog argv input =
     \<lparr>c_consumed = 0, c_output = join_args (tl argv) @ [NL], c_end = Exited 0\<rparr>"

definition to_upper :: "char \<Rightarrow> char" where
  "to_upper c =
     (if c \<in> set ''abcdefghijklmnopqrstuvwxyz''
      then ''ABCDEFGHIJKLMNOPQRSTUVWXYZ'' ! (of_char c - 97)
      else c)"

definition tr_prog :: program where
  "tr_prog argv input =
     (if tl argv = [''a-z'', ''A-Z'']
      then \<lparr>c_consumed = length input, c_output = map to_upper input, c_end = Exited 0\<rparr>
      else \<lparr>c_consumed = 0, c_output = [], c_end = Exited 1\<rparr>)"

definition cat_prog :: program where
  "cat_prog argv input = \<lparr>c_consumed = length input, c_output = input, c_end = Exited 0\<rparr>"

text \<open>A shell whose three standard descriptors are one terminal (stream 0), opened for
  reading and writing, with \<open>input\<close> still to be typed.\<close>

definition tty_world :: "bytes \<Rightarrow> world" where
  "tty_world input =
     \<lparr>files = Map.empty,
      pending = (\<lambda>k. [])(0 := input),
      written = (\<lambda>k. []),
      tty = (\<lambda>k. k = 0),
      ofds = [\<lparr>tgt = Stream 0, pos = 0, rd = True, wr = True\<rparr>],
      fds = [0 \<mapsto> 0, 1 \<mapsto> 0, 2 \<mapsto> 0],
      cwd = ''/home'',
      dirs = {''/home'', ''/tmp''},
      env_PATH = Some ''/bin:/usr/bin'',
      execs = [''/bin/echo'' \<mapsto> echo_prog, ''/usr/bin/tr'' \<mapsto> tr_prog,
               ''/bin/cat'' \<mapsto> cat_prog],
      out_buf = [],
      out_cap = 4096\<rparr>"

text \<open>A shell that reads \<open>input\<close> from a pipe (stream 0, read only) and writes to another
  (stream 1); \<open>fs\<close> is the file system.\<close>

definition batch_world :: "(path \<rightharpoonup> bytes) \<Rightarrow> bytes \<Rightarrow> world" where
  "batch_world fs input =
     \<lparr>files = fs,
      pending = (\<lambda>k. [])(0 := input),
      written = (\<lambda>k. []),
      tty = (\<lambda>k. False),
      ofds = [\<lparr>tgt = Stream 0, pos = 0, rd = True, wr = False\<rparr>,
              \<lparr>tgt = Stream 1, pos = 0, rd = False, wr = True\<rparr>,
              \<lparr>tgt = Stream 2, pos = 0, rd = False, wr = True\<rparr>],
      fds = [0 \<mapsto> 0, 1 \<mapsto> 1, 2 \<mapsto> 2],
      cwd = ''/home'',
      dirs = {''/home'', ''/tmp''},
      env_PATH = Some ''/bin:/usr/bin'',
      execs = [''/bin/echo'' \<mapsto> echo_prog, ''/usr/bin/tr'' \<mapsto> tr_prog,
               ''/bin/cat'' \<mapsto> cat_prog],
      out_buf = [],
      out_cap = 4096\<rparr>"


section \<open>Properties\<close>

subsection \<open>Built-in commands\<close>

lemma lookup_simps:
  "lookup None = -1" "lookup (Some ''?'') = 0" "lookup (Some ''exit'') = 1"
  "lookup (Some ''cd'') = 2" "lookup (Some ''pwd'') = 3"
  by (simp_all add: lookup_def cmd_table_def)


lemma fgets_written: "fgets w n = Some (line, w1) \<Longrightarrow> written w1 = written w"
  by (auto simp: fgets_def ofd_read_def Let_def split: option.splits if_splits target.splits)

text \<open>
  C8. A line whose first token is \<open>cd\<close>: the handler changes the working directory to the
  token at index 1 when that token is there and names a directory, and otherwise leaves the
  world as it was. Nothing else changes either way, so nothing is printed, and the handler
  returns 1 (handled); the loop goes on to the next line.
\<close>

theorem cd_silent:
  assumes "tokens_get_token toks 0 = Some ''cd''"
  shows "cmd_cd w toks =
           Returns 1 (w\<lparr>cwd := (case tokens_get_token toks 1 of
                                    None \<Rightarrow> cwd w
                                  | Some p \<Rightarrow> if resolve w p \<in> dirs w then resolve w p else cwd w)\<rparr>)
       \<and> process_line w toks =
           Some (Continue (w\<lparr>cwd := (case tokens_get_token toks 1 of
                                    None \<Rightarrow> cwd w
                                  | Some p \<Rightarrow> if resolve w p \<in> dirs w then resolve w p else cwd w)\<rparr>))"
proof -
  have c: "cmd_cd w toks =
           Returns 1 (w\<lparr>cwd := (case tokens_get_token toks 1 of
                                    None \<Rightarrow> cwd w
                                  | Some p \<Rightarrow> if resolve w p \<in> dirs w then resolve w p else cwd w)\<rparr>)"
    by (simp add: cmd_cd_def sys_chdir_def split: option.splits)
  have "process_line w toks =
      (case cmd_cd w toks of
         Returns r w' \<Rightarrow> Some (Continue w')
       | Exits c w' \<Rightarrow> Some (Exit c w'))"
    using assms by (simp add: process_line_def lookup_simps cmd_table_def run_builtin_def)
  with c show ?thesis by simp
qed

text \<open>\<open>cd\<close> to a path that is no directory, \<open>cd\<close> with no argument, and \<open>cd /tmp\<close>.\<close>

theorem cd_silent_witness:
  "process_line (batch_world Map.empty []) [''cd'', ''/nowhere'']
     = Some (Continue (batch_world Map.empty []))
 \<and> process_line (batch_world Map.empty []) [''cd'']
     = Some (Continue (batch_world Map.empty []))
 \<and> process_line (batch_world Map.empty []) [''cd'', ''/tmp'']
     = Some (Continue ((batch_world Map.empty [])\<lparr>cwd := ''/tmp''\<rparr>))"
  using cd_silent[of "[''cd'', ''/nowhere'']" "batch_world Map.empty []"]
    cd_silent[of "[''cd'']" "batch_world Map.empty []"]
    cd_silent[of "[''cd'', ''/tmp'']" "batch_world Map.empty []"]
  by (simp add: tokens_get_token_def resolve_def batch_world_def)

text \<open>
  C9. A line whose first token is \<open>exit\<close>: the handler never returns; the line ends the
  process with status 0 in the world that reading the line left, whatever input remains
  and whether or not the shell is interactive. Nothing is printed after the line was
  read, so no further prompt appears. (What the process still writes is what the buffer
  of \<open>stdout\<close> held when the line was read: \<open>main\<close> writes it as the process ends.)
\<close>

theorem exit_terminates:
  assumes "fgets w BUF_SIZE = Some (line, w1)"
    and "tokens_get_token (tok line) 0 = Some ''exit''"
  shows "process_line w1 (tok line) = Some (Exit 0 w1)
       \<and> (\<forall>toks r w'. cmd_exit w1 toks \<noteq> Returns r w')
       \<and> main_loop tok (Suc fuel) interactive line_num w = Some (0, w1)
       \<and> written w1 = written w"
proof -
  have p: "process_line w1 (tok line) = Some (Exit 0 w1)"
    using assms(2)
    by (simp add: process_line_def lookup_simps cmd_table_def run_builtin_def cmd_exit_def)
  have "main_loop tok (Suc fuel) interactive line_num w = Some (0, w1)"
    using assms(1) p by simp
  then show ?thesis
    using p fgets_written[OF assms(1)] by (simp add: cmd_exit_def)
qed

text \<open>On a terminal, after the first prompt: \<open>exit\<close> with a second line still pending.
  The second line stays unread and the terminal shows the first prompt only.\<close>

theorem exit_terminates_witness:
  "main_loop tokenize 1 True 0 (prompt (tty_world ''exit\<newline>echo hi\<newline>'') 0)
     = Some (0, (tty_world ''echo hi\<newline>'')\<lparr>written := (\<lambda>k. [])(0 := ''0: '')\<rparr>)"
proof -
  have a: "fgets (prompt (tty_world ''exit\<newline>echo hi\<newline>'') 0) BUF_SIZE =
    Some (''exit\<newline>'', (tty_world ''echo hi\<newline>'')\<lparr>written := (\<lambda>k. [])(0 := ''0: '')\<rparr>)"
    by (simp add: fgets_def prompt_def printf_def fflush_stdout_def isatty_def sys_write_def
        ofd_write_def tty_world_def fd_ofd_def get_ofd_def STDIN_FILENO_def STDOUT_FILENO_def
        BUF_SIZE_def ofd_peek_def ofd_read_def take_line_def NL_def show_int_def dec.simps
        Let_def)
  have b: "tokens_get_token (tokenize ''exit\<newline>'') 0 = Some ''exit''"
    by (simp add: tokenize_def tokens_get_token_def is_space_def NL_def)
  show ?thesis
    using exit_terminates[where tok = tokenize and fuel = 0 and interactive = True
        and line_num = 0, OF a b]
    by simp
qed

subsection \<open>Launching a program\<close>

lemma path_search_find:
  "\<forall>p \<in> set (path_prefixes s). length p + length name + 2 \<le> 128 \<Longrightarrow>
   path_search w s (Some name) =
     (case find (\<lambda>p. execv w (Some (p @ ''/'' @ name)) \<noteq> None) (path_prefixes s) of
        None \<Rightarrow> Not_found
      | Some p \<Rightarrow> Run (the (execv w (Some (p @ ''/'' @ name)))))"
proof (induction s rule: path_prefixes.induct)
  case (1 s)
  show ?case
  proof (cases "strtok s")
    case None
    then show ?thesis
      by (simp add: path_search.simps[of w s] path_prefixes.simps[of s])
  next
    case (Some a)
    obtain t r where a: "a = (t, r)" by (cases a)
    have pp: "path_prefixes s = t # path_prefixes r"
      using Some a by (simp add: path_prefixes.simps[of s])
    have fit: "length t + length name + 2 \<le> 128"
      and rest: "\<forall>p \<in> set (path_prefixes r). length p + length name + 2 \<le> 128"
      using "1.prems" pp by auto
    have ih: "path_search w r (Some name) =
     (case find (\<lambda>p. execv w (Some (p @ ''/'' @ name)) \<noteq> None) (path_prefixes r) of
        None \<Rightarrow> Not_found
      | Some p \<Rightarrow> Run (the (execv w (Some (p @ ''/'' @ name)))))"
      using "1.IH"[OF Some a[symmetric] rest] .
    show ?thesis
      using Some a fit ih pp
      by (auto simp: path_search.simps[of w s] split: option.splits)
  qed
qed

lemma split_colon_unfold:
  "split_colon cs = takeWhile (\<lambda>c. c \<noteq> CHR '':'') cs #
     (if dropWhile (\<lambda>c. c \<noteq> CHR '':'') cs = [] then []
      else split_colon (tl (dropWhile (\<lambda>c. c \<noteq> CHR '':'') cs)))"
  by (induction cs) (auto split: list.splits)

lemma path_prefixes_Nil: "path_prefixes [] = []"
  by (simp add: path_prefixes.simps[of "[]"] strtok_def)

lemma path_prefixes_colon: "path_prefixes (CHR '':'' # cs) = path_prefixes cs"
  by (simp add: path_prefixes.simps[of "CHR '':'' # cs"] path_prefixes.simps[of cs] strtok_def)

lemma path_prefixes_other:
  "c \<noteq> CHR '':'' \<Longrightarrow>
   path_prefixes (c # cs) =
     (c # takeWhile (\<lambda>c. c \<noteq> CHR '':'') cs) #
       path_prefixes (drop 1 (dropWhile (\<lambda>c. c \<noteq> CHR '':'') cs))"
  by (simp add: path_prefixes.simps[of "c # cs"] strtok_def)

lemma path_prefixes_split: "path_prefixes s = filter (\<lambda>p. p \<noteq> []) (split_colon s)"
proof (induction "length s" arbitrary: s rule: less_induct)
  case less
  show ?case
  proof (cases s)
    case Nil
    then show ?thesis by (simp add: path_prefixes_Nil)
  next
    case (Cons c cs)
    show ?thesis
    proof (cases "c = CHR '':''")
      case True
      have "path_prefixes cs = filter (\<lambda>p. p \<noteq> []) (split_colon cs)"
        using less[of cs] Cons by simp
      then show ?thesis using Cons True by (simp add: path_prefixes_colon)
    next
      case False
      let ?d = "dropWhile (\<lambda>c. c \<noteq> CHR '':'') cs"
      have len: "length (drop 1 ?d) < length s"
        using Cons length_dropWhile_le[of "\<lambda>c. c \<noteq> CHR '':''" cs] by simp
      have ih: "path_prefixes (drop 1 ?d) = filter (\<lambda>p. p \<noteq> []) (split_colon (drop 1 ?d))"
        using less[OF len] .
      have sc: "split_colon (c # cs) =
          (c # takeWhile (\<lambda>c. c \<noteq> CHR '':'') cs) #
            (if ?d = [] then [] else split_colon (tl ?d))"
        using False split_colon_unfold[of "c # cs"] by (auto simp del: split_colon.simps)
      have pp: "path_prefixes s =
          (c # takeWhile (\<lambda>c. c \<noteq> CHR '':'') cs) # path_prefixes (drop 1 ?d)"
        unfolding Cons using False by (rule path_prefixes_other)
      show ?thesis
      proof (cases "?d = []")
        case True
        have e: "path_prefixes (drop 1 ?d) = []"
          unfolding True by (simp add: path_prefixes_Nil)
        have "split_colon s = [c # takeWhile (\<lambda>c. c \<noteq> CHR '':'') cs]"
          unfolding Cons sc True by simp
        then show ?thesis unfolding pp e by simp
      next
        case nonempty: False
        have t: "tl ?d = drop 1 ?d" by (simp add: drop_Suc)
        have "split_colon s =
            (c # takeWhile (\<lambda>c. c \<noteq> CHR '':'') cs) # split_colon (drop 1 ?d)"
          unfolding Cons sc t using nonempty by auto
        then show ?thesis unfolding pp ih by simp
      qed
    qed
  qed
qed

text \<open>
  C3. A launched command whose name does not execute directly: the launcher reads \<open>PATH\<close>
  and goes through its directory prefixes, which are the non-empty fields of the string
  split on \<open>:\<close>, from left to right; it executes \<open>prefix/name\<close> for the first prefix where
  that succeeds (\<open>find\<close> returns the first element of the list that satisfies the test) and
  tries no later one; when none succeeds the command is not found. This is for \<open>PATH\<close> set
  and candidates that fit the 128 bytes of \<open>absolute_path\<close>; outside that the C code has
  no defined behaviour.
\<close>

theorem path_search_order:
  assumes "execv w (Some name) = None"
    and "env_PATH w = Some pathstr"
    and "\<forall>p \<in> set (path_prefixes pathstr). length p + length name + 2 \<le> 128"
  shows "path_prefixes pathstr = filter (\<lambda>p. p \<noteq> []) (split_colon pathstr)
       \<and> resolve_program w (Some name) =
           (case find (\<lambda>p. execv w (Some (p @ ''/'' @ name)) \<noteq> None) (path_prefixes pathstr) of
              None \<Rightarrow> Not_found
            | Some p \<Rightarrow> Run (the (execv w (Some (p @ ''/'' @ name)))))"
  using assms path_search_find[of pathstr name w]
  by (simp add: resolve_program_def path_prefixes_split[symmetric])

lemma path_prefixes_example: "path_prefixes ''/bin:/usr/bin'' = [''/bin'', ''/usr/bin'']"
  by (simp add: path_prefixes_split)

text \<open>With \<open>PATH=/bin:/usr/bin\<close>: \<open>tr\<close> is found under the second prefix after the first
  failed, and \<open>ls\<close> under neither.\<close>

theorem path_search_order_witness:
  "resolve_program (batch_world Map.empty []) (Some ''tr'') = Run tr_prog
 \<and> resolve_program (batch_world Map.empty []) (Some ''ls'') = Not_found"
  using path_search_order[of "batch_world Map.empty []" "''tr''" "''/bin:/usr/bin''"]
    path_search_order[of "batch_world Map.empty []" "''ls''" "''/bin:/usr/bin''"]
  by (simp add: path_prefixes_example execv_def resolve_def batch_world_def)






subsection \<open>Redirections\<close>

lemma lowest_free_Some: "lowest_free t n = Some k \<Longrightarrow> t k = None \<and> n \<le> k"
proof (induction t n rule: lowest_free.induct)
  case (1 t n)
  then show ?case
    by (subst (asm) (2) lowest_free.simps) (auto split: if_splits)
qed

lemma size_sub_simple: "b \<le> a \<Longrightarrow> a < 2 ^ 64 \<Longrightarrow> size_sub a b = a - b"
proof -
  assume ba: "b \<le> a" and a: "a < 2 ^ 64"
  have "(word_of_nat a :: 64 word) - word_of_nat b = word_of_nat (a - b)"
    using ba by (simp add: of_nat_diff)
  moreover have "unat (word_of_nat (a - b) :: 64 word) = a - b"
    using a by (intro of_nat_inverse) simp_all
  ultimately show ?thesis by (simp add: size_sub_def)
qed

lemma path_search_cong:
  "execs w' = execs w \<Longrightarrow> cwd w' = cwd w \<Longrightarrow> path_search w' s rel = path_search w s rel"
proof (induction w s rel rule: path_search.induct)
  case (1 w pathstr relative_path)
  have r: "\<And>p. execv w' p = execv w p"
    using "1.prems" by (simp add: execv_def resolve_def split: option.splits)
  show ?case
  proof (cases "strtok pathstr")
    case None
    then show ?thesis
      by (simp add: path_search.simps[of w' pathstr] path_search.simps[of w pathstr])
  next
    case (Some a)
    obtain t rest where a: "a = (t, rest)" by (cases a)
    show ?thesis
    proof (cases relative_path)
      case None
      then show ?thesis
        using Some a
        by (simp add: path_search.simps[of w' pathstr] path_search.simps[of w pathstr])
    next
      case (Some name)
      note n = this
      show ?thesis
      proof (cases "128 < length t + 1 + length name + 1 \<or> execv w (Some (t @ ''/'' @ name)) \<noteq> None")
        case True
        then show ?thesis
          using \<open>strtok pathstr = Some a\<close> a n r
          by (auto simp: path_search.simps[of w' pathstr] path_search.simps[of w pathstr])
      next
        case False
        then have "path_search w' rest relative_path = path_search w rest relative_path"
          using "1.IH"[OF \<open>strtok pathstr = Some a\<close> a[symmetric] n] "1.prems" by simp
        then show ?thesis
          using \<open>strtok pathstr = Some a\<close> a n r False
          by (auto simp: path_search.simps[of w' pathstr] path_search.simps[of w pathstr])
      qed
    qed
  qed
qed

lemma child_cong:
  assumes "execs w' = execs w" "cwd w' = cwd w" "env_PATH w' = env_PATH w"
    "out_buf w' = out_buf w"
  shows "child w' toks offset argc input = child w toks offset argc input"
proof -
  have r: "\<And>p. execv w' p = execv w p"
    using assms by (simp add: execv_def resolve_def split: option.splits)
  have "\<And>rel. resolve_program w' rel = resolve_program w rel"
    unfolding resolve_program_def r assms(3) path_search_cong[OF assms(1,2)] ..
  then show ?thesis by (simp add: child_def assms(4) Let_def split: launch.splits option.splits)
qed

lemma child_argv_take: "n \<le> length toks \<Longrightarrow> child_argv toks 0 n = take n toks"
proof -
  assume n: "n \<le> length toks"
  have "map (\<lambda>i. tokens_get_token toks (0 + i)) [0..<n] = map Some (take n toks)"
    using n by (intro nth_equalityI) (auto simp: tokens_get_token_def)
  moreover have "takeWhile (\<lambda>t. t \<noteq> None) (map Some (take n toks)) = map Some (take n toks)"
    by (intro takeWhile_eq_all_conv[THEN iffD2]) auto
  ultimately show ?thesis
    by (simp only: child_argv_def map_map comp_def option.sel map_ident)
qed

lemma tokens_last: "toks \<noteq> [] \<Longrightarrow> length toks < 2 ^ 64 \<Longrightarrow>
  tokens_get_token toks (size_sub (tokens_get_length toks) 1) = Some (last toks)"
  by (simp add: tokens_get_length_def size_sub_simple tokens_get_token_def last_conv_nth Suc_leI)

lemma ofd_peek_open:
  "i < length (ofds w) \<Longrightarrow>
   ofd_peek (w\<lparr>files := (if files w q = None then (files w)(q \<mapsto> []) else files w),
              ofds := ofds w @ [d], fds := t\<rparr>) i = ofd_peek w i"
  by (auto simp: ofd_peek_def get_ofd_def nth_append split: target.splits option.splits)

lemma ofd_read_frame:
  "files (fst (ofd_read w i n)) = files w"
  "written (fst (ofd_read w i n)) = written w"
  "fds (fst (ofd_read w i n)) = fds w"
  "tty (fst (ofd_read w i n)) = tty w"
  "cwd (fst (ofd_read w i n)) = cwd w"
  "dirs (fst (ofd_read w i n)) = dirs w"
  "env_PATH (fst (ofd_read w i n)) = env_PATH w"
  "execs (fst (ofd_read w i n)) = execs w"
  "length (ofds (fst (ofd_read w i n))) = length (ofds w)"
  by (auto simp: ofd_read_def Let_def split: option.splits target.splits)

lemma redirect_out_effect:
  assumes nb: "lookup (tokens_get_token toks 0) < 0"
    and np: "\<not> is_contains_word toks ''|''"
    and gt: "is_contains_word toks ''>''"
    and len: "2 \<le> length toks" "length toks < 2 ^ 64"
    and in0: "fds w 0 = Some i0" "i0 < length (ofds w)"
    and free: "lowest_free (fds w) 0 = Some fd"
  shows "process_line w toks =
     Some (Continue
       ((fst (ofd_read w i0 (c_consumed (child w toks 0 (length toks - 2) (ofd_peek w i0)))))
         \<lparr>files := (files w)(resolve w (last toks) \<mapsto>
              write_at (case files w (resolve w (last toks)) of None \<Rightarrow> [] | Some c \<Rightarrow> c) 0
                (c_output (child w toks 0 (length toks - 2) (ofd_peek w i0)))),
          ofds := ofds (fst (ofd_read w i0 (c_consumed (child w toks 0 (length toks - 2) (ofd_peek w i0)))))
                  @ [\<lparr>tgt = File (resolve w (last toks)),
                       pos = length (c_output (child w toks 0 (length toks - 2) (ofd_peek w i0))),
                       rd = False, wr = True\<rparr>]\<rparr>))"
proof -
  define q where "q = resolve w (last toks)"
  define L where "L = length (ofds w)"
  define w1 where "w1 = w\<lparr>files := (if files w q = None then (files w)(q \<mapsto> []) else files w),
       ofds := ofds w @ [\<lparr>tgt = File q, pos = 0, rd = False, wr = True\<rparr>],
       fds := (fds w)(fd \<mapsto> L)\<rparr>"
  define r where "r = child w toks 0 (length toks - 2) (ofd_peek w i0)"
  have ne: "toks \<noteq> []" using len by auto
  have fdfree: "fds w fd = None" using lowest_free_Some[OF free] by simp
  have fd0: "fd \<noteq> 0"
  proof
    assume "fd = 0"
    with fdfree in0 show False by simp
  qed
  have op: "sys_open w (Some (last toks)) True O_WRONLY = (w1, int fd)"
    by (simp add: sys_open_def Let_def free w1_def q_def L_def may_read_def may_write_def resolve_def)
  have pk: "ofd_peek w1 i0 = ofd_peek w i0"
    unfolding w1_def using in0 by (simp add: ofd_peek_open)
  have ch: "child w1 toks 0 (length toks - 2) (ofd_peek w i0) = r"
    unfolding r_def by (rule child_cong) (simp_all add: w1_def)
  have f1: "fds w1 = (fds w)(fd \<mapsto> L)"
    and o1: "ofds w1 = ofds w @ [\<lparr>tgt = File q, pos = 0, rd = False, wr = True\<rparr>]"
    and fl1: "files w1 q = Some (case files w q of None \<Rightarrow> [] | Some c \<Rightarrow> c)"
    by (auto simp: w1_def)
  have ex: "execute_program w1 toks 0 (length toks - 2) STDIN_FILENO (int fd) =
      ofd_write (fst (ofd_read w1 i0 (c_consumed r))) L (c_output r)"
    using in0 fd0
    by (simp add: execute_program_def Let_def fd_ofd_def STDIN_FILENO_def f1 pk ch)
  define w2 where "w2 = fst (ofd_read w1 i0 (c_consumed r))"
  have w2: "w2 = (fst (ofd_read w i0 (c_consumed r)))
      \<lparr>files := files w1, ofds := ofds (fst (ofd_read w i0 (c_consumed r))) @
            [\<lparr>tgt = File q, pos = 0, rd = False, wr = True\<rparr>], fds := fds w1\<rparr>"
    unfolding w2_def using in0 pk
    by (auto simp: ofd_read_def get_ofd_def o1 nth_append Let_def list_update_append1 w1_def
        split: target.splits)
  have fn: "tokens_get_token toks (size_sub (tokens_get_length toks) 1) = Some (last toks)"
    using ne len(2) by (rule tokens_last)
  have ac: "size_sub (tokens_get_length toks) 2 = length toks - 2"
    using len by (simp add: size_sub_simple tokens_get_length_def)
  have "process_line w toks =
      Some (Continue (sys_close (execute_program w1 toks 0 (length toks - 2) STDIN_FILENO (int fd))
         (int fd)))"
    unfolding process_line_def Let_def fn ac op using nb np gt by simp
  also have "sys_close (execute_program w1 toks 0 (length toks - 2) STDIN_FILENO (int fd)) (int fd)
      = (fst (ofd_read w i0 (c_consumed r)))
         \<lparr>files := (files w)(q \<mapsto> write_at (case files w q of None \<Rightarrow> [] | Some c \<Rightarrow> c) 0 (c_output r)),
          ofds := ofds (fst (ofd_read w i0 (c_consumed r)))
                  @ [\<lparr>tgt = File q, pos = length (c_output r), rd = False, wr = True\<rparr>]\<rparr>"
    unfolding ex w2_def[symmetric]
    using fdfree fl1
    by (subst w2)
       (auto simp: ofd_write_def get_ofd_def sys_close_def fd_ofd_def f1 L_def ofd_read_frame
          fun_upd_idem w1_def nth_append list_update_append write_at_def)
  finally show ?thesis
    unfolding q_def r_def .
qed

text \<open>
  C5. A line without \<open>|\<close> that contains \<open>>\<close> (and names no built-in): the file named by
  the last token is opened for writing and created when it is not there; the command gets
  the tokens \<open>[0, count - 2)\<close> as its argument vector and reads the interpreter's own
  standard input (the description \<open>i0\<close> of descriptor 0); its output goes into the file,
  from offset 0, and nothing appears on any stream; afterwards the descriptor table is as
  before, so the file is closed again. (Descriptor 0 open and a free descriptor for
  \<open>open\<close>; at least the two tokens of the redirection.)
\<close>

theorem output_redirection:
  assumes "lookup (tokens_get_token toks 0) < 0"
    and "\<not> is_contains_word toks ''|''"
    and "is_contains_word toks ''>''"
    and "2 \<le> length toks" and "length toks < 2 ^ 64"
    and "fds w 0 = Some i0" and "i0 < length (ofds w)"
    and "lowest_free (fds w) 0 = Some fd"
  shows "\<exists>w'. process_line w toks = Some (Continue w')
      \<and> files w' = (files w)(resolve w (last toks) \<mapsto>
            write_at (case files w (resolve w (last toks)) of None \<Rightarrow> [] | Some c \<Rightarrow> c) 0
              (c_output (child w toks 0 (length toks - 2) (ofd_peek w i0))))
      \<and> child_argv toks 0 (length toks - 2) = take (length toks - 2) toks
      \<and> written w' = written w
      \<and> fds w' = fds w"
  using redirect_out_effect[OF assms] assms(4)
  by (simp add: ofd_read_frame child_argv_take)

text \<open>\<open>echo hi > f\<close> where \<open>f\<close> does not exist yet.\<close>

theorem output_redirection_witness:
  "\<exists>w'. process_line (batch_world Map.empty []) [''echo'', ''hi'', ''>'', ''f''] = Some (Continue w')
     \<and> files w' = [''/home/f'' \<mapsto> ''hi\<newline>'']
     \<and> written w' = (\<lambda>k. [])
     \<and> fds w' = [0 \<mapsto> 0, 1 \<mapsto> 1, 2 \<mapsto> 2]"
proof -
  define w where "w = batch_world Map.empty []"
  define toks where "toks = [''echo'', ''hi'', ''>'', ''f'']"
  have h: "lookup (tokens_get_token toks 0) < 0" "\<not> is_contains_word toks ''|''"
    "is_contains_word toks ''>''" "2 \<le> length toks" "length toks < 2 ^ 64"
    "fds w 0 = Some 0" "0 < length (ofds w)"
    by (simp_all add: toks_def w_def tokens_get_token_def lookup_def cmd_table_def
        is_contains_word_def batch_world_def)
  have lf: "lowest_free (fds w) 0 = Some 3"
    by (simp add: lowest_free.simps w_def batch_world_def OPEN_MAX_def)
  have ch: "c_output (child w toks 0 (length toks - 2) (ofd_peek w 0)) = ''hi\<newline>''"
    by (simp add: child_def resolve_program_def execv_def resolve_def batch_world_def w_def
        toks_def tokens_get_token_def path_search.simps strtok_def child_argv_take
        echo_prog_def NL_def Let_def)
  have q: "resolve w (last toks) = ''/home/f''" "files w = Map.empty"
    "written w = (\<lambda>k. [])" "fds w = [0 \<mapsto> 0, 1 \<mapsto> 1, 2 \<mapsto> 2]"
    by (simp_all add: resolve_def w_def toks_def batch_world_def)
  show ?thesis
    using output_redirection[OF h lf]
    unfolding ch q
    by (auto simp: write_at_def w_def[symmetric] toks_def[symmetric])
qed

text \<open>
  C10. Output redirection to a file that exists: the file is not truncated. The new
  contents are the command's output followed by the old contents from the length of the
  output on, so old bytes past the output stay as they were.
\<close>

theorem redirect_keeps_tail:
  assumes "lookup (tokens_get_token toks 0) < 0"
    and "\<not> is_contains_word toks ''|''"
    and "is_contains_word toks ''>''"
    and "2 \<le> length toks" and "length toks < 2 ^ 64"
    and "fds w 0 = Some i0" and "i0 < length (ofds w)"
    and "lowest_free (fds w) 0 = Some fd"
    and "files w (resolve w (last toks)) = Some old"
  shows "\<exists>w'. process_line w toks = Some (Continue w')
      \<and> files w' (resolve w (last toks)) =
           Some (c_output (child w toks 0 (length toks - 2) (ofd_peek w i0))
                 @ drop (length (c_output (child w toks 0 (length toks - 2) (ofd_peek w i0)))) old)"
  using redirect_out_effect[OF assms(1-8)] assms(9)
  by (simp add: write_at_def)

text \<open>\<open>echo hi > f\<close> over a file of ten digits: the last seven digits remain.\<close>

theorem redirect_keeps_tail_witness:
  "\<exists>w'. process_line (batch_world [''/home/f'' \<mapsto> ''0123456789''] []) [''echo'', ''hi'', ''>'', ''f'']
        = Some (Continue w')
     \<and> files w' ''/home/f'' = Some ''hi\<newline>3456789''"
proof -
  define w where "w = batch_world [''/home/f'' \<mapsto> ''0123456789''] []"
  define toks where "toks = [''echo'', ''hi'', ''>'', ''f'']"
  have h: "lookup (tokens_get_token toks 0) < 0" "\<not> is_contains_word toks ''|''"
    "is_contains_word toks ''>''" "2 \<le> length toks" "length toks < 2 ^ 64"
    "fds w 0 = Some 0" "0 < length (ofds w)"
    by (simp_all add: toks_def w_def tokens_get_token_def lookup_def cmd_table_def
        is_contains_word_def batch_world_def)
  have lf: "lowest_free (fds w) 0 = Some 3"
    by (simp add: lowest_free.simps w_def batch_world_def OPEN_MAX_def)
  have ch: "c_output (child w toks 0 (length toks - 2) (ofd_peek w 0)) = ''hi\<newline>''"
    by (simp add: child_def resolve_program_def execv_def resolve_def batch_world_def w_def
        toks_def tokens_get_token_def path_search.simps strtok_def child_argv_take
        echo_prog_def NL_def Let_def)
  have q: "resolve w (last toks) = ''/home/f''"
    by (simp add: resolve_def w_def toks_def batch_world_def)
  have old: "files w (resolve w (last toks)) = Some ''0123456789''"
    by (simp add: q) (simp add: w_def batch_world_def)
  show ?thesis
    using redirect_keeps_tail[OF h lf old]
    unfolding ch q
    by (simp add: w_def[symmetric] toks_def[symmetric])
qed

lemma redirect_in_effect:
  assumes nb: "lookup (tokens_get_token toks 0) < 0"
    and np: "\<not> is_contains_word toks ''|''"
    and ng: "\<not> is_contains_word toks ''>''"
    and lt: "is_contains_word toks ''<''"
    and len: "2 \<le> length toks" "length toks < 2 ^ 64"
    and in0: "fds w 0 = Some i0"
    and out1: "fds w 1 = Some i1" "i1 < length (ofds w)"
    and free: "lowest_free (fds w) 0 = Some fd"
    and ex: "files w (resolve w (last toks)) = Some c"
  shows "process_line w toks =
     Some (Continue
       ((sys_write
           (w\<lparr>ofds := ofds w @
                [\<lparr>tgt = File (resolve w (last toks)),
                  pos = min (c_consumed (child w toks 0 (length toks - 2) c)) (length c),
                  rd = True, wr = False\<rparr>]\<rparr>)
           STDOUT_FILENO
           (c_output (child w toks 0 (length toks - 2) c)))
         \<lparr>fds := (fds w)(0 \<mapsto> length (ofds w))\<rparr>))"
proof -
  define q where "q = resolve w (last toks)"
  define L where "L = length (ofds w)"
  define w1 where "w1 = w\<lparr>files := (if files w q = None then (files w)(q \<mapsto> []) else files w),
       ofds := ofds w @ [\<lparr>tgt = File q, pos = 0, rd = True, wr = False\<rparr>],
       fds := (fds w)(fd \<mapsto> L)\<rparr>"
  define r where "r = child w toks 0 (length toks - 2) c"
  have ne: "toks \<noteq> []" using len by auto
  have fdfree: "fds w fd = None" using lowest_free_Some[OF free] by simp
  have fd0: "fd \<noteq> 0"
  proof
    assume "fd = 0"
    with fdfree in0 show False by simp
  qed
  have fd1: "fd \<noteq> 1"
  proof
    assume "fd = 1"
    with fdfree out1 show False by simp
  qed
  have op: "sys_open w (Some (last toks)) False O_RDONLY = (w1, int fd)"
    using ex
    by (simp add: sys_open_def Let_def free w1_def q_def L_def may_read_def may_write_def)
  define w2 where "w2 = sys_dup2 w1 (int fd) STDIN_FILENO"
  have f2: "fds w2 = (fds w)(fd \<mapsto> L, 0 \<mapsto> L)"
    and o2: "ofds w2 = ofds w @ [\<lparr>tgt = File q, pos = 0, rd = True, wr = False\<rparr>]"
    and fl2: "files w2 = files w"
    and e2: "execs w2 = execs w" "cwd w2 = cwd w" "env_PATH w2 = env_PATH w"
      "out_buf w2 = out_buf w"
    using ex by (auto simp: w2_def w1_def sys_dup2_def fd_ofd_def STDIN_FILENO_def q_def)
  have pk: "ofd_peek w2 L = c"
    using ex by (simp add: ofd_peek_def get_ofd_def o2 fl2 L_def q_def)
  have ch: "child w2 toks 0 (length toks - 2) c = r"
    unfolding r_def by (rule child_cong) (simp_all add: e2)
  have exq: "execute_program w2 toks 0 (length toks - 2) (int fd) STDOUT_FILENO =
      ofd_write (fst (ofd_read w2 L (c_consumed r))) i1 (c_output r)"
    using out1 fd0 fd1
    by (simp add: execute_program_def Let_def fd_ofd_def STDOUT_FILENO_def f2 pk ch)
  have fn: "tokens_get_token toks (size_sub (tokens_get_length toks) 1) = Some (last toks)"
    using ne len(2) by (rule tokens_last)
  have ac: "size_sub (tokens_get_length toks) 2 = length toks - 2"
    using len by (simp add: size_sub_simple tokens_get_length_def)
  have "process_line w toks =
      Some (Continue (sys_close (execute_program w2 toks 0 (length toks - 2) (int fd) STDOUT_FILENO)
         (int fd)))"
    unfolding process_line_def Let_def fn ac op w2_def using nb np ng lt by simp
  also have "sys_close (execute_program w2 toks 0 (length toks - 2) (int fd) STDOUT_FILENO) (int fd)
      = (sys_write (w\<lparr>ofds := ofds w @
                [\<lparr>tgt = File q, pos = min (c_consumed r) (length c), rd = True, wr = False\<rparr>]\<rparr>)
           STDOUT_FILENO (c_output r))\<lparr>fds := (fds w)(0 \<mapsto> L)\<rparr>"
    unfolding exq
    using fdfree out1 fd0 fd1 ex
    by (auto simp: ofd_write_def ofd_read_def get_ofd_def sys_close_def fd_ofd_def f2 o2 fl2 L_def
          w2_def w1_def sys_dup2_def STDIN_FILENO_def STDOUT_FILENO_def sys_write_def
          ofd_peek_def q_def Let_def
          fun_upd_idem nth_append list_update_append fun_upd_twist min_def
          split: target.splits option.splits)
  finally show ?thesis
    unfolding q_def r_def L_def .
qed

lemma ofd_write_ofds:
  "length (ofds (ofd_write w i b)) = length (ofds w)"
  "j < length (ofds w) \<Longrightarrow> tgt (ofds (ofd_write w i b) ! j) = tgt (ofds w ! j)"
  "j < length (ofds w) \<Longrightarrow> rd (ofds (ofd_write w i b) ! j) = rd (ofds w ! j)"
  "j < length (ofds w) \<Longrightarrow> wr (ofds (ofd_write w i b) ! j) = wr (ofds w ! j)"
  "fds (ofd_write w i b) = fds w"
  by (auto simp: ofd_write_def get_ofd_def nth_list_update split: option.splits target.splits)

lemma free_not_open: "t fd = None \<Longrightarrow> t k = Some i \<Longrightarrow> fd \<noteq> k"
  by auto

lemma child_runs:
  assumes "toks \<noteq> []" and "n \<le> length toks" and "n + 1 < 2 ^ 64"
    and "resolve_program w (Some (hd toks)) = Run prog"
  shows "child w toks 0 n input = prog (take n toks) input"
proof -
  have "tokens_get_token toks 0 = Some (hd toks)"
    using assms(1) by (simp add: tokens_get_token_def hd_conv_nth)
  then show ?thesis
    using assms(2,3,4) by (simp add: child_def Let_def child_argv_take)
qed

text \<open>
  C6. A line without \<open>|\<close> and \<open>>\<close> that contains \<open><\<close> (and names no built-in), the file
  named by the last token being there: the world afterwards is the world before with a new
  read-only description of the file, left at the offset up to which the child read; with
  the child's output written to the interpreter's standard output; and with the
  interpreter's own descriptor 0 naming the new description, where it named \<open>i0\<close> before.
  The descriptor that \<open>open\<close> returned is closed. The command is the tokens
  \<open>[0, count - 2)\<close>: the program that the first token resolves to is run with these as its
  argument vector, and reads the file from its start (\<open>c\<close>, all of its contents).
\<close>

theorem input_redirection:
  assumes "lookup (tokens_get_token toks 0) < 0"
    and "\<not> is_contains_word toks ''|''"
    and "\<not> is_contains_word toks ''>''"
    and "is_contains_word toks ''<''"
    and "2 \<le> length toks" and "length toks < 2 ^ 64"
    and "fds w 0 = Some i0"
    and "fds w 1 = Some i1" and "i1 < length (ofds w)"
    and "lowest_free (fds w) 0 = Some fd"
    and "files w (resolve w (last toks)) = Some c"
  shows "\<exists>w'. process_line w toks = Some (Continue w')
      \<and> w' = (sys_write
           (w\<lparr>ofds := ofds w @
                [\<lparr>tgt = File (resolve w (last toks)),
                  pos = min (c_consumed (child w toks 0 (length toks - 2) c)) (length c),
                  rd = True, wr = False\<rparr>]\<rparr>)
           STDOUT_FILENO
           (c_output (child w toks 0 (length toks - 2) c)))
         \<lparr>fds := (fds w)(0 \<mapsto> length (ofds w))\<rparr>
      \<and> (\<forall>prog. resolve_program w (Some (hd toks)) = Run prog \<longrightarrow>
            child w toks 0 (length toks - 2) c = prog (take (length toks - 2) toks) c)
      \<and> child_argv toks 0 (length toks - 2) = take (length toks - 2) toks
      \<and> fds w' 0 = Some (length (ofds w))
      \<and> map_option tgt (get_ofd w' (length (ofds w))) = Some (File (resolve w (last toks)))
      \<and> fds w' fd = None"
proof -
  have "fds w fd = None" using lowest_free_Some[OF assms(10)] by simp
  then have "fd \<noteq> 0"
    using assms(7) by (rule free_not_open)
  moreover have "toks \<noteq> []" using assms(5) by auto
  then have "\<forall>prog. resolve_program w (Some (hd toks)) = Run prog \<longrightarrow>
            child w toks 0 (length toks - 2) c = prog (take (length toks - 2) toks) c"
    using assms(5,6) by (simp add: child_runs)
  ultimately show ?thesis
    using redirect_in_effect[OF assms] assms(5) \<open>fds w fd = None\<close>
    by (simp add: child_argv_take get_ofd_def sys_write_def ofd_write_ofds nth_append
        split: option.splits)
qed

text \<open>\<open>tr a-z A-Z < f\<close>: \<open>tr\<close> is found under the second prefix of \<open>PATH\<close> and run with
  the three tokens before \<open><\<close>; the contents of \<open>f\<close> appear in upper case on the output
  stream, and descriptor 0 of the interpreter is left on \<open>f\<close>, read to its end.\<close>

theorem input_redirection_witness:
  "\<exists>w'. process_line (batch_world [''/home/f'' \<mapsto> ''hello\<newline>''] [])
          [''tr'', ''a-z'', ''A-Z'', ''<'', ''f''] = Some (Continue w')
     \<and> written w' 1 = ''HELLO\<newline>''
     \<and> fds w' 0 = Some 3
     \<and> get_ofd w' 3 = Some \<lparr>tgt = File ''/home/f'', pos = 6, rd = True, wr = False\<rparr>
     \<and> fds w' 3 = None"
proof -
  define w where "w = batch_world [''/home/f'' \<mapsto> ''hello\<newline>''] []"
  define toks where "toks = [''tr'', ''a-z'', ''A-Z'', ''<'', ''f'']"
  have h: "lookup (tokens_get_token toks 0) < 0" "\<not> is_contains_word toks ''|''"
    "\<not> is_contains_word toks ''>''"
    "is_contains_word toks ''<''" "2 \<le> length toks" "length toks < 2 ^ 64"
    "fds w 0 = Some 0" "fds w 1 = Some 1" "1 < length (ofds w)"
    by (simp_all add: toks_def w_def tokens_get_token_def lookup_def cmd_table_def
        is_contains_word_def batch_world_def)
  have lf: "lowest_free (fds w) 0 = Some 3"
    by (simp add: lowest_free.simps w_def batch_world_def OPEN_MAX_def)
  have q: "resolve w (last toks) = ''/home/f''"
    by (simp add: resolve_def w_def toks_def batch_world_def)
  have old: "files w (resolve w (last toks)) = Some ''hello\<newline>''"
    by (simp add: q) (simp add: w_def batch_world_def)
  have rp: "resolve_program w (Some (hd toks)) = Run tr_prog"
    by (simp add: resolve_program_def execv_def resolve_def batch_world_def w_def toks_def
        path_search.simps strtok_def)
  have l: "length (ofds w) = 3" by (simp add: w_def batch_world_def)
  from input_redirection[OF h lf old] obtain w' where
    p: "process_line w toks = Some (Continue w')"
    and e: "w' = (sys_write
           (w\<lparr>ofds := ofds w @
                [\<lparr>tgt = File (resolve w (last toks)),
                  pos = min (c_consumed (child w toks 0 (length toks - 2) ''hello\<newline>''))
                          (length ''hello\<newline>''),
                  rd = True, wr = False\<rparr>]\<rparr>)
           STDOUT_FILENO
           (c_output (child w toks 0 (length toks - 2) ''hello\<newline>'')))
         \<lparr>fds := (fds w)(0 \<mapsto> length (ofds w))\<rparr>"
    and r: "\<forall>prog. resolve_program w (Some (hd toks)) = Run prog \<longrightarrow>
            child w toks 0 (length toks - 2) ''hello\<newline>'' =
              prog (take (length toks - 2) toks) ''hello\<newline>''"
    by blast
  have ch: "child w toks 0 (length toks - 2) ''hello\<newline>'' =
      \<lparr>c_consumed = 6, c_output = ''HELLO\<newline>'', c_end = Exited 0\<rparr>"
    using r[rule_format, OF rp] by (simp add: toks_def tr_prog_def to_upper_def)
  have v: "written w' 1 = ''HELLO\<newline>''" "fds w' 0 = Some 3"
    "get_ofd w' 3 = Some \<lparr>tgt = File ''/home/f'', pos = 6, rd = True, wr = False\<rparr>"
    "fds w' 3 = None"
    unfolding e ch q l
    by (simp_all add: w_def batch_world_def sys_write_def ofd_write_def fd_ofd_def get_ofd_def
        STDOUT_FILENO_def)
  show ?thesis
    unfolding w_def[symmetric] toks_def[symmetric]
    by (intro exI[of _ w'] conjI p v)
qed

subsection \<open>Pipelines\<close>

text \<open>Every system call of the pipeline branch maps a state of the form \<open>relay\<close> to
  another one.\<close>

lemma scratch_paths_differ: "resolve w INPUT_FILE \<noteq> resolve w OUTPUT_FILE"
  by (simp add: resolve_def INPUT_FILE_def OUTPUT_FILE_def)

lemma relay_lseek_in: "fi \<noteq> fo \<Longrightarrow>
  sys_lseek (relay w fi fo a b pa pb) (int fi) n = relay w fi fo a b n pb"
  by (simp add: sys_lseek_def fd_ofd_def ofd_seek_def get_ofd_def relay_def nth_append
      list_update_append)

lemma relay_lseek_out:
  "sys_lseek (relay w fi fo a b pa pb) (int fo) n = relay w fi fo a b pa n"
  by (simp add: sys_lseek_def fd_ofd_def ofd_seek_def get_ofd_def relay_def nth_append
      list_update_append)

lemma relay_truncate_in: "fi \<noteq> fo \<Longrightarrow>
  sys_ftruncate (relay w fi fo a b pa pb) (int fi) 0 = relay w fi fo [] b pa pb"
  using scratch_paths_differ[of w]
  by (simp add: sys_ftruncate_def fd_ofd_def ofd_truncate_def get_ofd_def relay_def nth_append
      fun_upd_twist)

lemma relay_truncate_out:
  "sys_ftruncate (relay w fi fo a b pa pb) (int fo) 0 = relay w fi fo a [] pa pb"
  using scratch_paths_differ[of w]
  by (simp add: sys_ftruncate_def fd_ofd_def ofd_truncate_def get_ofd_def relay_def nth_append)

lemma relay_read_out:
  "sys_read (relay w fi fo a b pa pb) (int fo) n =
     (relay w fi fo a b pa (pb + length (take n (drop pb b))), Some (take n (drop pb b)))"
  using scratch_paths_differ[of w]
  by (simp add: sys_read_def fd_ofd_def ofd_read_def ofd_peek_def get_ofd_def relay_def nth_append
      list_update_append Let_def)

lemma relay_read_in: "fi \<noteq> fo \<Longrightarrow>
  sys_read (relay w fi fo a b pa pb) (int fi) n =
     (relay w fi fo a b (pa + length (take n (drop pa a))) pb, Some (take n (drop pa a)))"
  using scratch_paths_differ[of w]
  by (simp add: sys_read_def fd_ofd_def ofd_read_def ofd_peek_def get_ofd_def relay_def nth_append
      list_update_append Let_def)

lemma relay_write_in: "fi \<noteq> fo \<Longrightarrow> buf \<noteq> [] \<Longrightarrow>
  sys_write (relay w fi fo a b pa pb) (int fi) buf =
     relay w fi fo (write_at a pa buf) b (pa + length buf) pb"
  using scratch_paths_differ[of w]
  by (simp add: sys_write_def fd_ofd_def ofd_write_def get_ofd_def relay_def nth_append
      list_update_append fun_upd_twist)

lemma write_at_append:
  "write_at (write_at a p x) (p + length x) y = write_at a p (x @ y)"
proof -
  define h where "h = take p a @ replicate (p - length a) NUL"
  define r where "r = drop (p + length x) a"
  have lh: "length h = p" by (simp add: h_def)
  have w1: "write_at a p x = h @ x @ r"
    by (simp add: write_at_def h_def r_def)
  have t: "take (p + length x) (h @ x @ r) = h @ x"
    using lh by simp
  have d: "drop (p + length x + length y) (h @ x @ r) = drop (length y) r"
    using lh by simp
  have "write_at (h @ x @ r) (p + length x) y = h @ x @ y @ drop (length y) r"
    unfolding write_at_def t d using lh by simp
  moreover have "write_at a p (x @ y) = h @ x @ y @ drop (length y) r"
    by (simp add: write_at_def h_def r_def add.commute add.left_commute)
  ultimately show ?thesis by (simp add: w1)
qed

lemma copy_relay_out_in:
  assumes "fi \<noteq> fo"
  shows "copy_loop (relay w fi fo a b pa pb) (int fo) (int fi) =
     Some (relay w fi fo (if pb < length b then write_at a pa (drop pb b) else a) b
             (pa + (length b - pb)) (max pb (length b)))"
proof (induction "length b - pb" arbitrary: a pa pb rule: less_induct)
  case less
  show ?case
  proof (cases "pb < length b")
    case False
    then show ?thesis
      by (subst copy_loop.simps) (simp add: relay_read_out max_def)
  next
    case True
    define chunk where "chunk = take BUF_SIZE (drop pb b)"
    have ne: "chunk \<noteq> []" using True by (simp add: chunk_def BUF_SIZE_def)
    have lc: "length chunk \<le> length b - pb" by (simp add: chunk_def)
    have dec: "length b - (pb + length chunk) < length b - pb"
      using ne True lc by (cases chunk) auto
    have split: "drop pb b = chunk @ drop (pb + length chunk) b"
      unfolding chunk_def
      by (metis append_take_drop_id drop_drop add.commute length_take min.commute take_all_iff
          linorder_le_cases min_def)
    have step: "copy_loop (relay w fi fo a b pa pb) (int fo) (int fi) =
        copy_loop (relay w fi fo (write_at a pa chunk) b (pa + length chunk) (pb + length chunk))
          (int fo) (int fi)"
      using ne assms
      by (subst copy_loop.simps) (simp add: relay_read_out relay_write_in chunk_def[symmetric])
    show ?thesis
    proof (cases "pb + length chunk < length b")
      case again: True
      show ?thesis
        unfolding step less[OF dec]
        using True again lc split
        by (simp add: write_at_append max_def)
    next
      case fin: False
      then have e: "drop (pb + length chunk) b = []" by simp
      have l: "pb + length chunk = length b" "pa + length chunk = pa + (length b - pb)"
        using fin lc True by arith+
      show ?thesis
        unfolding step less[OF dec]
        using True split e l
        by (simp add: max_def)
    qed
  qed
qed

lemma relay_execute:
  assumes "fi \<noteq> fo"
  shows "execute_program (relay w fi fo a b pa pb) toks slow argc (int fi) (int fo) =
     relay w fi fo a
       (if c_output (child w toks slow argc (drop pa a)) = [] then b
        else write_at b pb (c_output (child w toks slow argc (drop pa a))))
       (pa + length (take (c_consumed (child w toks slow argc (drop pa a))) (drop pa a)))
       (pb + length (c_output (child w toks slow argc (drop pa a))))"
proof -
  have ch: "\<And>input. child (relay w fi fo a b pa pb) toks slow argc input = child w toks slow argc input"
    by (rule child_cong) (simp_all add: relay_def)
  have pk: "ofd_peek (relay w fi fo a b pa pb) (length (ofds w)) = drop pa a"
    using scratch_paths_differ[of w]
    by (simp add: ofd_peek_def get_ofd_def relay_def nth_append)
  show ?thesis
    using assms scratch_paths_differ[of w]
    by (simp add: execute_program_def fd_ofd_def Let_def)
       (simp add: relay_def pk[unfolded relay_def] ch[unfolded relay_def] ofd_read_def ofd_write_def
         get_ofd_def ofd_peek_def nth_append list_update_append Let_def fun_upd_twist)
qed

lemma stdin_stream_write: "stdin_stream w \<Longrightarrow> stdin_stream (sys_write w STDIN_FILENO buf)"
  by (auto simp: stdin_stream_def sys_write_def fd_ofd_def STDIN_FILENO_def ofd_write_def
      get_ofd_def split: option.splits target.splits)

lemma stdin_write_frame:
  assumes "stdin_stream w"
  shows "files (sys_write w STDIN_FILENO buf) = files w"
    "ofds (sys_write w STDIN_FILENO buf) = ofds w"
    "fds (sys_write w STDIN_FILENO buf) = fds w"
    "cwd (sys_write w STDIN_FILENO buf) = cwd w"
    "execs (sys_write w STDIN_FILENO buf) = execs w"
    "env_PATH (sys_write w STDIN_FILENO buf) = env_PATH w"
  using assms
  by (auto simp: stdin_stream_def sys_write_def fd_ofd_def STDIN_FILENO_def ofd_write_def
      get_ofd_def split: option.splits target.splits)

lemma stdin_write_append:
  assumes "stdin_stream w"
  shows "sys_write (sys_write w STDIN_FILENO x) STDIN_FILENO y = sys_write w STDIN_FILENO (x @ y)"
  using assms
  by (auto simp: stdin_stream_def sys_write_def fd_ofd_def STDIN_FILENO_def ofd_write_def
      get_ofd_def split: option.splits target.splits)

lemma stdin_streamE:
  assumes "stdin_stream w"
  obtains i0 k where "fds w 0 = Some i0" "i0 < length (ofds w)" "tgt (ofds w ! i0) = Stream k"
  using assms by (auto simp: stdin_stream_def split: option.splits target.splits)

lemma relay_write_stdin:
  assumes "stdin_stream w" "fi \<noteq> 0" "fo \<noteq> 0"
  shows "sys_write (relay w fi fo a b pa pb) STDIN_FILENO buf =
     relay (sys_write w STDIN_FILENO buf) fi fo a b pa pb"
proof -
  from assms(1) obtain i0 k where
    i0: "fds w 0 = Some i0" "i0 < length (ofds w)" "tgt (ofds w ! i0) = Stream k"
    by (rule stdin_streamE)
  show ?thesis
  proof (cases "wr (ofds w ! i0) \<and> buf \<noteq> []")
    case True
    have l: "sys_write w STDIN_FILENO buf = w\<lparr>written := (written w)(k := written w k @ buf)\<rparr>"
      using i0 True
      by (simp add: sys_write_def fd_ofd_def STDIN_FILENO_def ofd_write_def get_ofd_def)
    have "sys_write (relay w fi fo a b pa pb) STDIN_FILENO buf =
        (relay w fi fo a b pa pb)\<lparr>written := (written w)(k := written w k @ buf)\<rparr>"
      using i0 True assms(2,3)
      by (simp add: sys_write_def fd_ofd_def STDIN_FILENO_def ofd_write_def get_ofd_def relay_def
          nth_append)
    then show ?thesis
      unfolding l by (simp add: relay_def resolve_def)
  next
    case False
    have l: "sys_write w STDIN_FILENO buf = w"
      using i0 False
      by (auto simp: sys_write_def fd_ofd_def STDIN_FILENO_def ofd_write_def get_ofd_def)
    have "sys_write (relay w fi fo a b pa pb) STDIN_FILENO buf = relay w fi fo a b pa pb"
      using i0 False assms(2,3)
      by (auto simp: sys_write_def fd_ofd_def STDIN_FILENO_def ofd_write_def get_ofd_def relay_def
          nth_append)
    then show ?thesis
      unfolding l .
  qed
qed

lemma copy_relay_in_stdin:
  assumes "fi \<noteq> fo" "fi \<noteq> 0" "fo \<noteq> 0"
  shows "stdin_stream w \<Longrightarrow>
     copy_loop (relay w fi fo a b pa pb) (int fi) STDIN_FILENO =
     Some (relay (sys_write w STDIN_FILENO (drop pa a)) fi fo a b (max pa (length a)) pb)"
proof (induction "length a - pa" arbitrary: w pa rule: less_induct)
  case less
  note ss = \<open>stdin_stream w\<close>
  show ?case
  proof (cases "pa < length a")
    case False
    have "sys_write w STDIN_FILENO [] = w"
      by (auto simp: sys_write_def ofd_write_def split: option.splits)
    with False show ?thesis
      using assms
      by (subst copy_loop.simps) (simp add: relay_read_in max_def)
  next
    case True
    define chunk where "chunk = take BUF_SIZE (drop pa a)"
    have ne: "chunk \<noteq> []" using True by (simp add: chunk_def BUF_SIZE_def)
    have lc: "length chunk \<le> length a - pa" by (simp add: chunk_def)
    have dec: "length a - (pa + length chunk) < length a - pa"
      using ne True lc by (cases chunk) auto
    have split: "drop pa a = chunk @ drop (pa + length chunk) a"
      unfolding chunk_def
      by (metis append_take_drop_id drop_drop add.commute length_take min.commute take_all_iff
          linorder_le_cases min_def)
    have step: "copy_loop (relay w fi fo a b pa pb) (int fi) STDIN_FILENO =
        copy_loop (relay (sys_write w STDIN_FILENO chunk) fi fo a b (pa + length chunk) pb)
          (int fi) STDIN_FILENO"
      using ne assms ss
      by (subst copy_loop.simps)
         (simp add: relay_read_in relay_write_stdin chunk_def[symmetric])
    have ih: "copy_loop (relay (sys_write w STDIN_FILENO chunk) fi fo a b (pa + length chunk) pb)
          (int fi) STDIN_FILENO =
        Some (relay (sys_write (sys_write w STDIN_FILENO chunk) STDIN_FILENO
                       (drop (pa + length chunk) a)) fi fo a b
                (max (pa + length chunk) (length a)) pb)"
      by (rule less(1)[OF dec stdin_stream_write[OF ss]])
    have m: "max (pa + length chunk) (length a) = max pa (length a)"
      using lc True by (simp add: max_def)
    show ?thesis
      unfolding step ih m stdin_write_append[OF ss] split[symmetric] ..
  qed
qed

lemma files_keep: "(if f q = None then f(q \<mapsto> []) else f) = f(q \<mapsto> (case f q of None \<Rightarrow> [] | Some x \<Rightarrow> x))"
  by (auto simp: fun_eq_iff split: option.splits)

lemma relay_open:
  assumes "lowest_free (fds w) 0 = Some fi"
    and "lowest_free ((fds w)(fi \<mapsto> length (ofds w))) 0 = Some fo"
  shows "(let (w1, input_filedes) = sys_open w (Some INPUT_FILE) True O_RDWR;
              (w2, output_filedes) = sys_open w1 (Some OUTPUT_FILE) True O_RDWR;
              w3 = sys_ftruncate w2 input_filedes 0;
              w4 = sys_ftruncate w3 output_filedes 0
          in (w4, input_filedes, output_filedes)) = (relay w fi fo [] [] 0 0, int fi, int fo)"
proof -
  have ne: "fi \<noteq> fo"
    using lowest_free_Some[OF assms(2)] by auto
  define a0 where "a0 = (case files w (resolve w INPUT_FILE) of None \<Rightarrow> [] | Some x \<Rightarrow> x)"
  define b0 where "b0 = (case files w (resolve w OUTPUT_FILE) of None \<Rightarrow> [] | Some x \<Rightarrow> x)"
  define w1 where "w1 = w\<lparr>files := (files w)(resolve w INPUT_FILE \<mapsto> a0),
       ofds := ofds w @ [\<lparr>tgt = File (resolve w INPUT_FILE), pos = 0, rd = True, wr = True\<rparr>],
       fds := (fds w)(fi \<mapsto> length (ofds w))\<rparr>"
  have o1: "sys_open w (Some INPUT_FILE) True O_RDWR = (w1, int fi)"
    using assms(1)
    by (simp add: sys_open_def Let_def may_read_def may_write_def files_keep w1_def a0_def)
  have r1: "resolve w1 p = resolve w p" for p
    by (simp add: resolve_def w1_def)
  have f1: "fds w1 = (fds w)(fi \<mapsto> length (ofds w))" "length (ofds w1) = Suc (length (ofds w))"
    "files w1 (resolve w OUTPUT_FILE) = files w (resolve w OUTPUT_FILE)"
    using scratch_paths_differ[of w] by (simp_all add: w1_def)
  have o2: "sys_open w1 (Some OUTPUT_FILE) True O_RDWR = (relay w fi fo a0 b0 0 0, int fo)"
    using assms(2)
    apply (simp add: sys_open_def Let_def may_read_def may_write_def files_keep r1 f1 b0_def)
    apply (simp add: w1_def relay_def)
    done
  show ?thesis
    using ne
    by (simp add: o1 o2 relay_truncate_in relay_truncate_out)
qed

lemma relay_close:
  assumes "fds w fi = None" "fds w fo = None" "fi \<noteq> fo"
  shows "sys_close (sys_close (relay w fi fo a b pa pb) (int fi)) (int fo) =
     w\<lparr>files := (files w)(resolve w INPUT_FILE \<mapsto> a, resolve w OUTPUT_FILE \<mapsto> b),
       ofds := ofds w @ [\<lparr>tgt = File (resolve w INPUT_FILE), pos = pa, rd = True, wr = True\<rparr>,
                         \<lparr>tgt = File (resolve w OUTPUT_FILE), pos = pb, rd = True, wr = True\<rparr>]\<rparr>"
proof -
  have "((fds w)(fi \<mapsto> length (ofds w), fo \<mapsto> Suc (length (ofds w))))(fi := None, fo := None) = fds w"
    using assms by (auto simp: fun_eq_iff)
  then show ?thesis
    using assms(3)
    by (simp add: sys_close_def fd_ofd_def relay_def)
qed

text \<open>The loop over the stages and the whole branch in closed form.\<close>

lemma stage_loop_relay:
  assumes "fi \<noteq> fo"
  shows "stage_loop toks (int fi) (int fo) k slow fast (relay w fi fo a [] pa pb) =
     Some (case relay_stages w toks k slow fast (a, pa, pb) of
             (a1, pa1, pb1) \<Rightarrow> relay w fi fo a1 [] pa1 pb1)"
proof (induction k arbitrary: slow fast a pa pb)
  case 0
  show ?case by simp
next
  case (Suc k)
  define fast1 where "fast1 = scan_stage toks fast"
  define r where "r = child w toks slow (fast1 - slow) a"
  define pa1 where "pa1 = length (take (c_consumed r) a)"
  define b where "b = (if c_output r = [] then [] else write_at [] pb (c_output r))"
  define a1 where "a1 = (if b = [] then [] else write_at [] pa1 b)"
  have lb: "length b = pb + length (c_output r) \<or> c_output r = []"
    by (simp add: b_def write_at_def)
  have w2: "execute_program (sys_lseek (relay w fi fo a [] pa pb) (int fi) 0) toks slow
        (fast1 - slow) (int fi) (int fo) = relay w fi fo a b pa1 (pb + length (c_output r))"
    using assms by (simp add: relay_lseek_in relay_execute r_def pa1_def b_def)
  have w4: "sys_lseek (sys_ftruncate (relay w fi fo a b pa1 (pb + length (c_output r))) (int fi) 0)
        (int fo) 0 = relay w fi fo [] b pa1 0"
    using assms by (simp add: relay_truncate_in relay_lseek_out)
  have w5: "copy_loop (relay w fi fo [] b pa1 0) (int fo) (int fi) =
       Some (relay w fi fo a1 b (pa1 + length b) (length b))"
    using assms by (simp add: copy_relay_out_in a1_def)
  have w6: "sys_ftruncate (relay w fi fo a1 b (pa1 + length b) (length b)) (int fo) 0 =
       relay w fi fo a1 [] (pa1 + length b) (length b)"
    by (simp add: relay_truncate_out)
  show ?case
    unfolding stage_loop.simps relay_stages.simps Let_def
      fast1_def[symmetric] r_def[symmetric] pa1_def[symmetric] b_def[symmetric] a1_def[symmetric]
      w2 w4 w5 w6 option.case Suc.IH ..
qed

lemma run_pipeline_relay:
  assumes ss: "stdin_stream w"
    and fi: "lowest_free (fds w) 0 = Some fi"
    and fo: "lowest_free ((fds w)(fi \<mapsto> length (ofds w))) 0 = Some fo"
  shows "run_pipeline w toks =
     Some (case relay_stages w toks (process_num toks) 0 0 ([], 0, 0) of
             (a, pa, pb) \<Rightarrow>
               (sys_write w STDIN_FILENO a)
                 \<lparr>files := (files w)(resolve w INPUT_FILE \<mapsto> a, resolve w OUTPUT_FILE \<mapsto> []),
                  ofds := ofds w @
                    [\<lparr>tgt = File (resolve w INPUT_FILE), pos = length a, rd = True, wr = True\<rparr>,
                     \<lparr>tgt = File (resolve w OUTPUT_FILE), pos = pb, rd = True, wr = True\<rparr>]\<rparr>)"
proof -
  obtain a pa pb where rs: "relay_stages w toks (process_num toks) 0 0 ([], 0, 0) = (a, pa, pb)"
    by (cases "relay_stages w toks (process_num toks) 0 0 ([], 0, 0)") auto
  from ss obtain i0 k where i0: "fds w 0 = Some i0"
    by (rule stdin_streamE)
  have n1: "fds w fi = None" using lowest_free_Some[OF fi] by simp
  have n2: "fds w fo = None" "fi \<noteq> fo"
    using lowest_free_Some[OF fo] by (auto split: if_splits)
  have z: "fi \<noteq> 0" "fo \<noteq> 0"
  proof -
    show "fi \<noteq> 0" using n1 i0 by (cases "fi = 0") simp_all
    show "fo \<noteq> 0" using n2(1) i0 by (cases "fo = 0") simp_all
  qed
  have op: "(let (w1, input_filedes) = sys_open w (Some INPUT_FILE) True O_RDWR;
              (w2, output_filedes) = sys_open w1 (Some OUTPUT_FILE) True O_RDWR;
              w3 = sys_ftruncate w2 input_filedes 0;
              w4 = sys_ftruncate w3 output_filedes 0
          in (w4, input_filedes, output_filedes)) = (relay w fi fo [] [] 0 0, int fi, int fo)"
    by (rule relay_open[OF fi fo])
  have sl: "stage_loop toks (int fi) (int fo) (process_num toks) 0 0 (relay w fi fo [] [] 0 0) =
      Some (relay w fi fo a [] pa pb)"
    by (simp add: stage_loop_relay[OF n2(2)] rs)
  have cp: "copy_loop (sys_lseek (relay w fi fo a [] pa pb) (int fi) 0) (int fi) STDIN_FILENO =
      Some (relay (sys_write w STDIN_FILENO a) fi fo a [] (length a) pb)"
    using copy_relay_in_stdin[OF n2(2) z ss, of a "[]" 0 pb]
    by (simp add: relay_lseek_in[OF n2(2)])
  define w' where "w' = sys_write w STDIN_FILENO a"
  have fr: "fds w' = fds w" "files w' = files w" "ofds w' = ofds w" "cwd w' = cwd w"
    unfolding w'_def by (rule stdin_write_frame[OF ss])+
  have cl: "sys_close (sys_close (relay w' fi fo a [] (length a) pb) (int fi)) (int fo) =
     w'\<lparr>files := (files w)(resolve w INPUT_FILE \<mapsto> a, resolve w OUTPUT_FILE \<mapsto> []),
       ofds := ofds w @ [\<lparr>tgt = File (resolve w INPUT_FILE), pos = length a, rd = True, wr = True\<rparr>,
                         \<lparr>tgt = File (resolve w OUTPUT_FILE), pos = pb, rd = True, wr = True\<rparr>]\<rparr>"
    using relay_close[of w' fi fo a "[]" "length a" pb] n1 n2
    by (simp add: fr resolve_def)
  have rp: "run_pipeline w toks =
      (case (let (w1, input_filedes) = sys_open w (Some INPUT_FILE) True O_RDWR;
              (w2, output_filedes) = sys_open w1 (Some OUTPUT_FILE) True O_RDWR;
              w3 = sys_ftruncate w2 input_filedes 0;
              w4 = sys_ftruncate w3 output_filedes 0
          in (w4, input_filedes, output_filedes)) of
        (w4, input_filedes, output_filedes) \<Rightarrow>
          (case stage_loop toks input_filedes output_filedes (process_num toks) 0 0 w4 of
           None \<Rightarrow> None
         | Some w5 \<Rightarrow>
             (case copy_loop (sys_lseek w5 input_filedes 0) input_filedes STDIN_FILENO of
                None \<Rightarrow> None
              | Some w6 \<Rightarrow> Some (sys_close (sys_close w6 input_filedes) output_filedes))))"
    by (simp add: run_pipeline_def Let_def split: prod.splits)
  show ?thesis
    unfolding rp op prod.case sl option.case cp rs cl[unfolded w'_def] ..
qed

text \<open>The line \<open>echo abc | tr a-z A-Z\<close>.\<close>

lemma scan_ex: "scan_stage [''echo'', ''abc'', ''|'', ''tr'', ''a-z'', ''A-Z''] 0 = 2"
  "scan_stage [''echo'', ''abc'', ''|'', ''tr'', ''a-z'', ''A-Z''] 3 = 6"
  by (simp_all add: scan_stage.simps tokens_get_length_def tokens_get_token_def)

lemma pn_ex: "process_num [''echo'', ''abc'', ''|'', ''tr'', ''a-z'', ''A-Z''] = 2"
  by (simp add: process_num_def)

lemma argv_ex: "child_argv [''echo'', ''abc'', ''|'', ''tr'', ''a-z'', ''A-Z''] 3 3 = [''tr'', ''a-z'', ''A-Z'']"
  by (simp add: child_argv_def tokens_get_token_def upt_rec)

lemma child_ex1:
  assumes "execs w = execs (batch_world Map.empty [])" "cwd w = ''/home''" "env_PATH w = Some ''/bin:/usr/bin''"
  shows "child w [''echo'', ''abc'', ''|'', ''tr'', ''a-z'', ''A-Z''] 0 2 input = echo_prog [''echo'', ''abc''] input"
  using assms
    by (simp add: child_def resolve_program_def execv_def resolve_def batch_world_def
        tokens_get_token_def path_search.simps strtok_def child_argv_take Let_def)

lemma child_ex2:
  assumes "execs w = execs (batch_world Map.empty [])" "cwd w = ''/home''" "env_PATH w = Some ''/bin:/usr/bin''"
  shows "child w [''echo'', ''abc'', ''|'', ''tr'', ''a-z'', ''A-Z''] 3 3 input = tr_prog [''tr'', ''a-z'', ''A-Z''] input"
  using assms
    by (simp add: child_def resolve_program_def execv_def resolve_def batch_world_def
        tokens_get_token_def path_search.simps strtok_def argv_ex Let_def)

lemma upper_ex: "to_upper CHR ''a'' = CHR ''A''" "to_upper CHR ''b'' = CHR ''B''"
  "to_upper CHR ''c'' = CHR ''C''" "to_upper CHR ''\<newline>'' = CHR ''\<newline>''"
  by (simp_all add: to_upper_def)

lemma stages_ex:
  assumes "execs w = execs (batch_world Map.empty [])" "cwd w = ''/home''" "env_PATH w = Some ''/bin:/usr/bin''"
  shows "relay_stages w [''echo'', ''abc'', ''|'', ''tr'', ''a-z'', ''A-Z''] 2 0 0 ([], 0, 0)
     = (replicate 8 NUL @ ''ABC\<newline>'', 12, 8)"
proof -
  define T where "T = [''echo'', ''abc'', ''|'', ''tr'', ''a-z'', ''A-Z'']"
  have four: "(4::nat) = Suc (Suc (Suc (Suc 0)))" by simp
  have s1: "relay_stages w T (Suc (Suc 0)) 0 0 ([], 0, 0) =
      relay_stages w T (Suc 0) 3 3 (''abc\<newline>'', 4, 4)"
    unfolding T_def four
    by (subst relay_stages.simps(2))
       (simp add: Let_def scan_ex child_ex1[OF assms] echo_prog_def write_at_def NL_def del: relay_stages.simps)
  have s2: "relay_stages w T (Suc 0) 3 3 (''abc\<newline>'', 4, 4) =
      (replicate 8 NUL @ ''ABC\<newline>'', 12, 8)"
    unfolding T_def
    apply (simp add: Let_def scan_ex)
    apply (simp add: child_ex2[OF assms])
    apply (simp add: tr_prog_def upper_ex)
    apply (simp add: write_at_def numeral_eq_Suc upper_ex)
    done
  have e: "relay_stages w T 2 0 0 ([], 0, 0) = relay_stages w T (Suc (Suc 0)) 0 0 ([], 0, 0)"
    by (simp add: numeral_2_eq_2)
  show ?thesis
    unfolding T_def[symmetric] e s1 s2 ..
qed

lemma pipeline_line:
  assumes "lookup (tokens_get_token toks 0) < 0" and "is_contains_word toks ''|''"
    and "stdin_stream w"
    and "lowest_free (fds w) 0 = Some fi"
    and "lowest_free ((fds w)(fi \<mapsto> length (ofds w))) 0 = Some fo"
  shows "\<exists>w'. process_line w toks = Some (Continue w')
      \<and> written w' = written (sys_write w STDIN_FILENO (relayed w toks))
      \<and> pending w' = pending (sys_write w STDIN_FILENO (relayed w toks))
      \<and> files w' = (files w)(resolve w INPUT_FILE \<mapsto> relayed w toks, resolve w OUTPUT_FILE \<mapsto> [])
      \<and> fds w' = fds w"
proof -
  obtain a pa pb where rs: "relay_stages w toks (process_num toks) 0 0 ([], 0, 0) = (a, pa, pb)"
    by (cases "relay_stages w toks (process_num toks) 0 0 ([], 0, 0)") auto
  have a: "relayed w toks = a" by (simp add: relayed_def rs)
  have fr: "fds (sys_write w STDIN_FILENO a) = fds w"
    by (rule stdin_write_frame[OF assms(3)])
  show ?thesis
    using assms(1,2)
    by (simp add: process_line_def Let_def run_pipeline_relay[OF assms(3,4,5)] rs a fr)
qed

lemma write_stdin_stream:
  assumes "fds w 0 = Some i0" "i0 < length (ofds w)" "tgt (ofds w ! i0) = Stream k"
  shows "written (sys_write w STDIN_FILENO buf) =
      (if wr (ofds w ! i0) \<and> buf \<noteq> [] then (written w)(k := written w k @ buf) else written w)"
  using assms
  by (simp add: sys_write_def fd_ofd_def STDIN_FILENO_def ofd_write_def get_ofd_def)

lemma batch_free:
  "stdin_stream (batch_world fs input)"
  "lowest_free (fds (batch_world fs input)) 0 = Some 3"
  "lowest_free ((fds (batch_world fs input))(3 \<mapsto> length (ofds (batch_world fs input)))) 0 = Some 4"
  by (simp_all add: stdin_stream_def lowest_free.simps batch_world_def OPEN_MAX_def)

lemma relayed_example:
  assumes "execs w = execs (batch_world Map.empty [])" "cwd w = ''/home''"
    "env_PATH w = Some ''/bin:/usr/bin''"
  shows "relayed w [''echo'', ''abc'', ''|'', ''tr'', ''a-z'', ''A-Z''] = replicate 8 NUL @ ''ABC\<newline>''"
  unfolding relayed_def pn_ex stages_ex[OF assms] by simp

text \<open>
  C1. A pipeline line, with descriptor 0 open on a stream \<open>k\<close> and two descriptors free
  for the scratch files: after the last stage the contents of the input scratch file are
  written to descriptor 0, the standard input of the interpreter, and to nothing else.
  They reach the stream \<open>k\<close> when its description is open for writing and are lost
  otherwise; descriptor 1 is not written to.
\<close>

theorem pipeline_result_written_to_stdin:
  assumes "lookup (tokens_get_token toks 0) < 0" and "is_contains_word toks ''|''"
    and "fds w 0 = Some i0" and "i0 < length (ofds w)" and "tgt (ofds w ! i0) = Stream k"
    and "lowest_free (fds w) 0 = Some fi"
    and "lowest_free ((fds w)(fi \<mapsto> length (ofds w))) 0 = Some fo"
  shows "\<exists>w'. process_line w toks = Some (Continue w')
      \<and> files w' (resolve w INPUT_FILE) = Some (relayed w toks)
      \<and> written w' =
          (if wr (ofds w ! i0) \<and> relayed w toks \<noteq> []
           then (written w)(k := written w k @ relayed w toks)
           else written w)"
proof -
  have ss: "stdin_stream w"
    using assms(3,4,5) by (simp add: stdin_stream_def)
  from pipeline_line[OF assms(1,2) ss assms(6,7)] scratch_paths_differ[of w]
  show ?thesis
    unfolding write_stdin_stream[OF assms(3,4,5)] by auto
qed

text \<open>The line \<open>echo abc | tr a-z A-Z\<close>: nothing is written when the three standard
  descriptors are pipes, and the result appears, after eight NUL bytes, when they are one
  terminal opened for reading and writing.\<close>

theorem pipeline_result_written_to_stdin_witness:
  "(\<exists>w'. process_line (batch_world Map.empty []) [''echo'', ''abc'', ''|'', ''tr'', ''a-z'', ''A-Z'']
           = Some (Continue w')
        \<and> written w' = (\<lambda>k. []))
   \<and> (\<exists>w'. process_line (tty_world []) [''echo'', ''abc'', ''|'', ''tr'', ''a-z'', ''A-Z'']
           = Some (Continue w')
        \<and> written w' = (\<lambda>k. [])(0 := replicate 8 NUL @ ''ABC\<newline>''))"
proof -
  define b where "b = batch_world Map.empty []"
  define t where "t = tty_world []"
  define toks where "toks = [''echo'', ''abc'', ''|'', ''tr'', ''a-z'', ''A-Z'']"
  have h: "lookup (tokens_get_token toks 0) < 0" "is_contains_word toks ''|''"
    by (simp_all add: toks_def tokens_get_token_def lookup_def cmd_table_def is_contains_word_def)
  have hb: "fds b 0 = Some 0" "0 < length (ofds b)" "tgt (ofds b ! 0) = Stream 0"
    "lowest_free (fds b) 0 = Some 3" "lowest_free ((fds b)(3 \<mapsto> length (ofds b))) 0 = Some 4"
    by (simp_all add: b_def batch_world_def lowest_free.simps OPEN_MAX_def)
  have ht: "fds t 0 = Some 0" "0 < length (ofds t)" "tgt (ofds t ! 0) = Stream 0"
    "lowest_free (fds t) 0 = Some 3" "lowest_free ((fds t)(3 \<mapsto> length (ofds t))) 0 = Some 4"
    by (simp_all add: t_def tty_world_def lowest_free.simps OPEN_MAX_def)
  have rb: "relayed b toks = replicate 8 NUL @ ''ABC\<newline>''"
    unfolding toks_def by (rule relayed_example) (simp_all add: b_def batch_world_def)
  have rt: "relayed t toks = replicate 8 NUL @ ''ABC\<newline>''"
    unfolding toks_def by (rule relayed_example) (simp_all add: t_def tty_world_def batch_world_def)
  have q: "\<not> wr (ofds b ! 0)" "wr (ofds t ! 0)" "written b = (\<lambda>k. [])" "written t = (\<lambda>k. [])"
    by (simp_all add: b_def t_def batch_world_def tty_world_def)
  from pipeline_result_written_to_stdin[OF h hb] obtain wb where
    wb: "process_line b toks = Some (Continue wb)" "written wb = (\<lambda>k. [])"
    unfolding rb by (auto simp: q)
  from pipeline_result_written_to_stdin[OF h ht] obtain wt where
    wt: "process_line t toks = Some (Continue wt)"
      "written wt = (\<lambda>k. [])(0 := replicate 8 NUL @ ''ABC\<newline>'')"
    unfolding rt by (auto simp: q)
  show ?thesis
    unfolding b_def[symmetric] t_def[symmetric] toks_def[symmetric]
    by (intro conjI exI[of _ wb] exI[of _ wt] wb wt)
qed

text \<open>After \<open>echo abc | tr a-z A-Z\<close>, read from a pipe: the input scratch file holds
  twelve bytes and the output scratch file none; the two descriptions stay behind in the
  table of open files, their descriptors closed.\<close>

theorem scratch_input_file_not_truncated:
  "run_pipeline (batch_world Map.empty []) [''echo'', ''abc'', ''|'', ''tr'', ''a-z'', ''A-Z''] =
     Some ((batch_world Map.empty [])
       \<lparr>files := [''/home/./.input'' \<mapsto> replicate 8 NUL @ ''ABC\<newline>'',
                  ''/home/./.output'' \<mapsto> []],
        ofds := ofds (batch_world Map.empty []) @
                  [\<lparr>tgt = File ''/home/./.input'', pos = 12, rd = True, wr = True\<rparr>,
                   \<lparr>tgt = File ''/home/./.output'', pos = 8, rd = True, wr = True\<rparr>]\<rparr>)"
proof -
  define w where "w = batch_world Map.empty []"
  define T where "T = [''echo'', ''abc'', ''|'', ''tr'', ''a-z'', ''A-Z'']"
  have r: "resolve w INPUT_FILE = ''/home/./.input''" "resolve w OUTPUT_FILE = ''/home/./.output''"
    by (simp_all add: resolve_def w_def batch_world_def INPUT_FILE_def OUTPUT_FILE_def)
  have st: "relay_stages w T (process_num T) 0 0 ([], 0, 0) = (replicate 8 NUL @ ''ABC\<newline>'', 12, 8)"
    unfolding T_def pn_ex by (rule stages_ex) (simp_all add: w_def batch_world_def)
  have h: "stdin_stream w" "lowest_free (fds w) 0 = Some 3"
    "lowest_free ((fds w)(3 \<mapsto> length (ofds w))) 0 = Some 4"
    unfolding w_def by (rule batch_free)+
  have nw: "sys_write w STDIN_FILENO buf = w" for buf
    by (simp add: sys_write_def ofd_write_def fd_ofd_def get_ofd_def STDIN_FILENO_def w_def
        batch_world_def)
  have f: "files w = Map.empty" by (simp add: w_def batch_world_def)
  show ?thesis
    unfolding w_def[symmetric] T_def[symmetric] run_pipeline_relay[OF h] st r prod.case nw f
    by simp
qed

text \<open>
  C2. A pipeline line, with descriptor 0 open on a stream and two descriptors free for
  the scratch files: after the whole pipeline the output scratch file is empty, the input
  scratch file is not truncated and still holds the bytes copied into it after the last
  stage, and no other file has changed.
\<close>

theorem scratch_files_after_pipeline:
  assumes "lookup (tokens_get_token toks 0) < 0" and "is_contains_word toks ''|''"
    and "stdin_stream w"
    and "lowest_free (fds w) 0 = Some fi"
    and "lowest_free ((fds w)(fi \<mapsto> length (ofds w))) 0 = Some fo"
  shows "\<exists>w'. process_line w toks = Some (Continue w')
      \<and> files w' (resolve w OUTPUT_FILE) = Some []
      \<and> files w' (resolve w INPUT_FILE) = Some (relayed w toks)
      \<and> (\<forall>p. p \<noteq> resolve w INPUT_FILE \<longrightarrow> p \<noteq> resolve w OUTPUT_FILE \<longrightarrow> files w' p = files w p)"
  using pipeline_line[OF assms] scratch_paths_differ[of w] by auto

text \<open>The line \<open>echo abc | tr a-z A-Z\<close> with one other file in the file system.\<close>

theorem scratch_files_after_pipeline_witness:
  "\<exists>w'. process_line (batch_world [''/home/notes'' \<mapsto> ''keep''] [])
           [''echo'', ''abc'', ''|'', ''tr'', ''a-z'', ''A-Z''] = Some (Continue w')
      \<and> files w' ''/home/./.output'' = Some []
      \<and> files w' ''/home/./.input'' = Some (replicate 8 NUL @ ''ABC\<newline>'')
      \<and> files w' ''/home/notes'' = Some ''keep''"
proof -
  define w where "w = batch_world [''/home/notes'' \<mapsto> ''keep''] []"
  define toks where "toks = [''echo'', ''abc'', ''|'', ''tr'', ''a-z'', ''A-Z'']"
  have h: "lookup (tokens_get_token toks 0) < 0" "is_contains_word toks ''|''"
    by (simp_all add: toks_def tokens_get_token_def lookup_def cmd_table_def is_contains_word_def)
  have hw: "stdin_stream w" "lowest_free (fds w) 0 = Some 3"
    "lowest_free ((fds w)(3 \<mapsto> length (ofds w))) 0 = Some 4"
    unfolding w_def by (rule batch_free)+
  have r: "resolve w INPUT_FILE = ''/home/./.input''" "resolve w OUTPUT_FILE = ''/home/./.output''"
    by (simp_all add: resolve_def w_def batch_world_def INPUT_FILE_def OUTPUT_FILE_def)
  have rw: "relayed w toks = replicate 8 NUL @ ''ABC\<newline>''"
    unfolding toks_def by (rule relayed_example) (simp_all add: w_def batch_world_def)
  have f: "files w ''/home/notes'' = Some ''keep''"
    by (simp add: w_def batch_world_def)
  from scratch_files_after_pipeline[OF h hw] obtain w' where
    p: "process_line w toks = Some (Continue w')"
    and o: "files w' (resolve w OUTPUT_FILE) = Some []"
    and i: "files w' (resolve w INPUT_FILE) = Some (relayed w toks)"
    and k: "\<forall>p. p \<noteq> resolve w INPUT_FILE \<longrightarrow> p \<noteq> resolve w OUTPUT_FILE \<longrightarrow> files w' p = files w p"
    by blast
  have n: "files w' ''/home/notes'' = Some ''keep''"
    using k[rule_format, of "''/home/notes''"] by (simp add: r f)
  note w' = p o[unfolded r] i[unfolded r rw] n
  show ?thesis
    unfolding w_def[symmetric] toks_def[symmetric]
    by (intro conjI exI[of _ w'] w')
qed

subsection \<open>The prompt\<close>










end
